theory Spec2Isabelle
  imports Complex_Main "HOL-Library.Word"
begin

section \<open>Bytes, text and the host\<close>

text \<open>
  The header is a \<^verbatim>\<open>std::vector<unsigned char>\<close>; a byte is an 8-bit word.
  Element counts are \<^verbatim>\<open>uint64_t\<close> and are kept as 64-bit words, so that
  every increment wraps as it does in the source. Lengths of vectors are natural
  numbers; where the source subtracts two of them in unsigned 64-bit arithmetic
  the wrap-around is written out.
\<close>

type_synonym byte = "8 word"

datatype endian = little | big

datatype MemoryOrder = Fortran | C

text \<open>
  The three \<^verbatim>\<open>std::runtime_error\<close>s of the source, named by what they
  report: \<open>LayoutMismatch\<close> for the two messages about label, type and size
  vectors of different lengths, \<open>HeaderTooLarge\<close> for
  "dictionary too large for .npy header". \<open>AssertionFailed\<close> is the
  \<^verbatim>\<open>assert\<close> of \<^verbatim>\<open>wrap_up\<close>; \<open>UndefinedBehaviour\<close> marks a read or a
  write outside an array, which the source does not check.
\<close>

datatype error = LayoutMismatch | HeaderTooLarge | AssertionFailed | UndefinedBehaviour

definition native_endian_symbol :: "endian \<Rightarrow> byte" where
  "native_endian_symbol e = (if e = little then of_char CHR ''<'' else of_char CHR ''>'')"

text \<open>\<^verbatim>\<open>append(vec, string_view)\<close>: the characters of the view, as bytes.\<close>

definition append_str :: "byte list \<Rightarrow> string \<Rightarrow> byte list" where
  "append_str vec view = vec @ map of_char view"

text \<open>
  The object representation of an \<open>n\<close>-byte integer on the host, as
  \<^verbatim>\<open>memcpy\<close> reads it: least significant byte first on a little-endian host,
  last on a big-endian one.
\<close>

definition le_bytes :: "nat \<Rightarrow> 'a::len word \<Rightarrow> byte list" where
  "le_bytes n w = map (\<lambda>i. ucast (drop_bit (8 * i) w)) [0..<n]"

definition object_bytes :: "endian \<Rightarrow> nat \<Rightarrow> 'a::len word \<Rightarrow> byte list" where
  "object_bytes e n w = (if e = little then le_bytes n w else rev (le_bytes n w))"

text \<open>
  \<^verbatim>\<open>append(lhs, const T rhs)\<close> at \<^verbatim>\<open>T = uint16_t\<close>: the bytes of
  \<open>rhs\<close> are copied out and, on a big-endian host, inserted in reverse.
\<close>

definition append_int :: "endian \<Rightarrow> byte list \<Rightarrow> 16 word \<Rightarrow> byte list" where
  "append_int e lhs rhs =
     (let buffer = object_bytes e 2 rhs
      in if e = big then lhs @ rev buffer else lhs @ buffer)"

text \<open>\<^verbatim>\<open>std::to_string\<close> of an unsigned integer: its decimal digits.\<close>

fun to_string :: "nat \<Rightarrow> string" where
  "to_string n =
     (if n < 10 then [char_of (48 + n)]
      else to_string (n div 10) @ [char_of (48 + n mod 10)])"

declare to_string.simps [simp del]

section \<open>Header codec (npystream.cpp)\<close>

definition finalize_header :: "endian \<Rightarrow> byte list \<Rightarrow> error + byte list" where
  "finalize_header e dict =
     (let remainder = 16 - (10 + length dict) mod 16;
          dict1 = dict @ replicate remainder (of_char CHR '' '');
          dict2 = dict1[length dict1 - 1 := 0x0A]
      in if length dict2 > 0xffff then Inl HeaderTooLarge
         else
           (let header = [0x93];
                header = append_str header ''NUMPY'';
                header = header @ [0x01];
                header = header @ [0x00];
                header = append_int e header (of_nat (length dict2))
            in Inr (header @ dict2)))"

text \<open>
  The tail that both overloads of \<^verbatim>\<open>create_npy_header\<close> share, line for
  line: the storage order, the shape and the closing of the dictionary.
  \<^verbatim>\<open>shape[0]\<close> is read without a check, so an empty shape is undefined
  behaviour.
\<close>

fun shape_loop :: "byte list \<Rightarrow> 64 word list \<Rightarrow> byte list" where
  "shape_loop dict [] = dict"
| "shape_loop dict (x # xs) =
     shape_loop (append_str (append_str dict '', '') (to_string (unat x))) xs"

definition order_and_shape ::
  "endian \<Rightarrow> byte list \<Rightarrow> MemoryOrder \<Rightarrow> 64 word list \<Rightarrow> error + byte list" where
  "order_and_shape e dict memory_order shape =
     (case shape of
        [] \<Rightarrow> Inl UndefinedBehaviour
      | s0 # rest \<Rightarrow>
          (let dict = append_str dict (if memory_order = C then ''False'' else ''True'');
               dict = append_str dict '', 'shape': ('';
               dict = append_str dict (to_string (unat s0));
               dict = shape_loop dict rest;
               dict = (if length shape = 1 then append_str dict '','' else dict);
               dict = append_str dict ''), }''
           in finalize_header e dict))"

text \<open>The single-scalar overload.\<close>

definition create_npy_header_scalar ::
  "endian \<Rightarrow> 64 word list \<Rightarrow> char \<Rightarrow> nat \<Rightarrow> MemoryOrder \<Rightarrow> error + byte list" where
  "create_npy_header_scalar e shape dtype wordsize memory_order =
     (let dict = append_str [] (''{'descr': '' @ [CHR 0x27]);
          dict = dict @ [native_endian_symbol e];
          dict = dict @ [of_char dtype];
          dict = append_str dict (to_string wordsize);
          dict = append_str dict ([CHR 0x27] @ '', 'fortran_order': '')
      in order_and_shape e dict memory_order shape)"

text \<open>
  The structured overload. Its \<^verbatim>\<open>for\<close> loop runs over the fields in
  order; the separator is written after every field but the last
  (\<^verbatim>\<open>i + 1 != dtypes.size()\<close>).
\<close>

fun descr_loop :: "endian \<Rightarrow> byte list \<Rightarrow> (string \<times> char \<times> nat) list \<Rightarrow> byte list" where
  "descr_loop e dict [] = dict"
| "descr_loop e dict ((label, dtype, sz) # rest) =
     (let dict = append_str dict (''('' @ [CHR 0x27]);
          dict = append_str dict label;
          dict = append_str dict ([CHR 0x27] @ '', '' @ [CHR 0x27]);
          dict = dict @ [native_endian_symbol e];
          dict = dict @ [of_char dtype];
          dict = append_str dict (to_string sz);
          dict = append_str dict ([CHR 0x27] @ '')'');
          dict = (if rest \<noteq> [] then append_str dict '', '' else dict)
      in descr_loop e dict rest)"

definition create_npy_header_structured ::
  "endian \<Rightarrow> 64 word list \<Rightarrow> string list \<Rightarrow> char list \<Rightarrow> nat list \<Rightarrow> MemoryOrder
     \<Rightarrow> error + byte list" where
  "create_npy_header_structured e shape labels dtypes sizes memory_order =
     (let dict = append_str [] ''{'descr': [''
      in if length labels \<noteq> length dtypes \<or> length dtypes \<noteq> length sizes
            \<or> length sizes \<noteq> length labels
         then Inl LayoutMismatch
         else
           (let dict = descr_loop e dict (zip labels (zip dtypes sizes));
                dict = (if length dtypes = 1 then dict @ [of_char CHR '',''] else dict);
                dict = append_str dict ''], 'fortran_order': ''
            in order_and_shape e dict memory_order shape))"

section \<open>Record layout\<close>

text \<open>
  A scalar type of the record is known to the writer by two constants only: its
  one-character dtype code and its size in bytes. The template parameters
  \<^verbatim>\<open>T, TArgs...\<close> are the first type and the list of the others, so a
  record type always has at least one field. \<open>native\<close> is
  \<^verbatim>\<open>std::endian::native\<close>.
\<close>

type_synonym scalar = "char \<times> nat"

record params =
  native :: endian
  T :: scalar
  TArgs :: "scalar list"

text \<open>
  Modelled from the spec: the type-to-dtype mapper \<^verbatim>\<open>map_type\<close> of
  \<^verbatim>\<open>map_type.hpp\<close>, which is not among the sources. Given a scalar type it
  returns its single-character NumPy type code.
\<close>

definition map_type :: "scalar \<Rightarrow> char" where
  "map_type t = fst t"

text \<open>\<^verbatim>\<open>sizeof\<close>: the byte size of a scalar type.\<close>

definition sizeof :: "scalar \<Rightarrow> nat" where
  "sizeof t = snd t"

text \<open>\<^verbatim>\<open>tuple_type\<close> is \<^verbatim>\<open>std::tuple<T, TArgs...>\<close>, \<open>tuple_size\<close> its length.\<close>

definition tuple_type :: "params \<Rightarrow> scalar list" where
  "tuple_type p = T p # TArgs p"

definition tuple_size :: "params \<Rightarrow> nat" where
  "tuple_size p = length (tuple_type p)"

text \<open>
  Modelled from the spec: \<^verbatim>\<open>tuple_info<tuple_type>::data_types\<close> of
  \<^verbatim>\<open>tuple_util.hpp\<close>, which is not among the sources: the type code of each
  field, in field order.
\<close>

definition data_types :: "params \<Rightarrow> char list" where
  "data_types p = map map_type (tuple_type p)"

text \<open>
  Modelled from the spec: \<^verbatim>\<open>tuple_info<tuple_type>::element_sizes\<close> of
  \<^verbatim>\<open>tuple_util.hpp\<close>, which is not among the sources: the byte size of each
  field, in field order.
\<close>

definition element_sizes :: "params \<Rightarrow> nat list" where
  "element_sizes p = map sizeof (tuple_type p)"

text \<open>
  Modelled from the spec: \<^verbatim>\<open>tuple_info<tuple_type>::sum_sizes\<close> of
  \<^verbatim>\<open>tuple_util.hpp\<close>, which is not among the sources: the total record
  stride, the sum of the sizes of the fields.
\<close>

definition sum_sizes :: "params \<Rightarrow> nat" where
  "sum_sizes p = sum_list (element_sizes p)"

text \<open>
  Modelled from the spec: \<^verbatim>\<open>tuple_info<U>::offsets\<close> of
  \<^verbatim>\<open>tuple_util.hpp\<close>, which is not among the sources: each field's byte
  offset within one serialized record, by sequential packing with no alignment
  padding, from the sizes of the fields.
\<close>

fun offsets_from :: "nat \<Rightarrow> nat list \<Rightarrow> nat list" where
  "offsets_from a [] = []"
| "offsets_from a (n # ns) = a # offsets_from (a + n) ns"

definition offsets :: "nat list \<Rightarrow> nat list" where
  "offsets ns = offsets_from 0 ns"

section \<open>The output file\<close>

text \<open>
  A \<^verbatim>\<open>std::ofstream\<close> opened in binary mode. \<open>content\<close> is its output
  sequence, the bytes handed to the stream so far, each at its position in the
  file, and \<open>pos\<close> is the put position. Writing replaces the bytes under the
  position and extends the sequence at its end. The writer only ever seeks to 0,
  so the position is never beyond the end.

  The stream buffers what it is given, and the class never flushes it: how many
  of these bytes have reached the disk is left to the stream until it is closed,
  which happens when the writer is destroyed, after \<^verbatim>\<open>wrap_up\<close>. So
  \<open>content\<close> is the file on disk once the destructor has run; before that it
  is what the stream has been given, and the file on disk may hold less of it,
  or nothing. Input and output are taken to succeed.
\<close>

record ofstream =
  content :: "byte list"
  pos :: nat

definition ofstream_open :: ofstream where
  "ofstream_open = \<lparr>content = [], pos = 0\<rparr>"

definition ofstream_write :: "ofstream \<Rightarrow> byte list \<Rightarrow> ofstream" where
  "ofstream_write f bs =
     \<lparr>content = take (pos f) (content f) @ bs @ drop (pos f + length bs) (content f),
      pos = pos f + length bs\<rparr>"

definition seekp :: "ofstream \<Rightarrow> nat \<Rightarrow> ofstream" where
  "seekp f n = f\<lparr>pos := n\<rparr>"

text \<open>What is stored under the path: nothing, or a file with these bytes.\<close>

type_synonym disk = "byte list option"

section \<open>Finalising the header (npystream.cpp)\<close>

text \<open>
  The in-memory part of \<^verbatim>\<open>wrap_up\<close>: render the header for the true count,
  insert the missing padding before the last byte, set the two length bytes and
  check the \<^verbatim>\<open>assert\<close>. \<^verbatim>\<open>dtypes[0]\<close> and \<^verbatim>\<open>element_sizes[0]\<close>
  are read without a check. \<open>len_missing_padding\<close> is an unsigned 64-bit
  difference and \<^verbatim>\<open>std::max\<close> with 0 leaves it as it is: for a header
  longer than the reserved space it wraps around, and the run ends at the
  \<^verbatim>\<open>assert\<close> at the latest. The two references \<open>len_upper\<close> and
  \<open>len_lower\<close> are bound to the elements 7 and 8 of the vector.
\<close>

definition updated_header ::
  "endian \<Rightarrow> 64 word \<Rightarrow> string list \<Rightarrow> char list \<Rightarrow> nat list \<Rightarrow> error + byte list" where
  "updated_header e values_written labels dtypes sizes =
     (if length labels = 0
      then (case (dtypes, sizes) of
              (dtype # _, wordsize # _) \<Rightarrow>
                create_npy_header_scalar e [values_written] dtype wordsize C
            | _ \<Rightarrow> Inl UndefinedBehaviour)
      else create_npy_header_structured e [values_written] labels dtypes sizes C)"

definition pad_and_patch :: "nat \<Rightarrow> byte list \<Rightarrow> error + byte list" where
  "pad_and_patch header_end_pos hdr =
     (let len_missing_padding = (of_nat header_end_pos - of_nat (length hdr) :: 64 word);
          hdr = butlast hdr @ replicate (unat (max 0 len_missing_padding)) (of_char CHR '' '')
                  @ [last hdr];
          len = (of_nat (length hdr) - 10 :: 64 word);
          hdr = hdr[7 := ucast (len div 0x100)];
          hdr = hdr[8 := ucast (len mod 0x100)]
      in if length hdr = header_end_pos then Inr hdr else Inl AssertionFailed)"

definition wrap_up ::
  "endian \<Rightarrow> ofstream \<Rightarrow> 64 word \<Rightarrow> nat \<Rightarrow> string list \<Rightarrow> char list \<Rightarrow> nat list
     \<Rightarrow> error + ofstream" where
  "wrap_up e file values_written header_end_pos labels dtypes sizes =
     (case updated_header e values_written labels dtypes sizes of
        Inl err \<Rightarrow> Inl err
      | Inr hdr \<Rightarrow>
          (case pad_and_patch header_end_pos hdr of
             Inl err \<Rightarrow> Inl err
           | Inr hdr' \<Rightarrow> Inr (ofstream_write (seekp file 0) hdr')))"

section \<open>The streaming writer (npystream.hpp)\<close>

record NpyStream =
  "file" :: ofstream
  header_end_pos :: nat
  values_written :: "64 word"
  buffer_size :: "64 word"
  labels :: "string list"
  buffer :: "byte list"

definition buffer_capacity :: "params \<Rightarrow> nat" where
  "buffer_capacity p = max 1 (256 div sum_sizes p)"

text \<open>
  The members as their default initialisers leave them: no labels, both counters
  0, and a zeroed buffer of \<open>buffer_capacity\<close> slots of \<open>sum_sizes\<close> bytes.
  \<open>header_end_pos\<close> has no initialiser; \<open>init\<close> assigns it before anything
  reads it, and it starts at 0 here. The file is not open yet.
\<close>

definition fresh :: "params \<Rightarrow> NpyStream" where
  "fresh p =
     \<lparr>file = ofstream_open, header_end_pos = 0, values_written = 0, buffer_size = 0,
      labels = [], buffer = replicate (buffer_capacity p * sum_sizes p) 0\<rparr>"

text \<open>
  \<^verbatim>\<open>init\<close>. Both \<^verbatim>\<open>throw\<close>s and the exceptions of the header codec
  leave before \<^verbatim>\<open>file.open\<close>: the error is returned with the disk as it
  was. Otherwise the stream owns the file, created empty.
\<close>

definition init :: "params \<Rightarrow> NpyStream \<Rightarrow> disk \<Rightarrow> (error \<times> disk) + NpyStream" where
  "init p s d =
     (let max_elements = (- 1 :: 64 word);
          header =
            (if length (labels s) = 0
             then (if tuple_size p = 1
                   then create_npy_header_scalar (native p) [max_elements]
                          (map_type (T p)) (sizeof (T p)) C
                   else Inl LayoutMismatch)
             else (if length (labels s) \<noteq> tuple_size p then Inl LayoutMismatch
                   else create_npy_header_structured (native p) [max_elements] (labels s)
                          (data_types p) (element_sizes p) C))
      in case header of
           Inl err \<Rightarrow> Inl (err, d)
         | Inr header \<Rightarrow>
             (let header_end = length header;
                  header = take 8 header @ replicate (length header - 8) 0
              in Inr (s\<lparr>header_end_pos := header_end,
                        file := ofstream_write ofstream_open header\<rparr>)))"

text \<open>The constructor from a path alone names the fields \<open>f0\<close>, \<open>f1\<close>, ...\<close>

definition NpyStream_path :: "params \<Rightarrow> disk \<Rightarrow> (error \<times> disk) + NpyStream" where
  "NpyStream_path p d =
     (let s = fresh p;
          s = (if tuple_size p > 1
               then s\<lparr>labels := map (\<lambda>i. ''f'' @ to_string i) [0..<tuple_size p]\<rparr>
               else s)
      in init p s d)"

definition NpyStream_labels :: "params \<Rightarrow> disk \<Rightarrow> string list \<Rightarrow> (error \<times> disk) + NpyStream" where
  "NpyStream_labels p d labels0 = init p ((fresh p)\<lparr>labels := labels0\<rparr>) d"

definition flush_buffer :: "params \<Rightarrow> NpyStream \<Rightarrow> NpyStream" where
  "flush_buffer p s =
     s\<lparr>file := ofstream_write (file s) (take (unat (buffer_size s) * sum_sizes p) (buffer s)),
       buffer_size := 0\<rparr>"

text \<open>
  \<^verbatim>\<open>fill\<close>. A value of the record type is the list of its fields' object
  representations, the bytes \<^verbatim>\<open>memcpy\<close> reads. Each is copied to the slot's
  address plus the field's offset; a copy that would leave the buffer is
  undefined behaviour.
\<close>

definition copy_bytes :: "byte list \<Rightarrow> nat \<Rightarrow> byte list \<Rightarrow> byte list" where
  "copy_bytes mem a bs = take a mem @ bs @ drop (a + length bs) mem"

fun fill :: "byte list list \<Rightarrow> nat list \<Rightarrow> nat \<Rightarrow> byte list \<Rightarrow> error + byte list" where
  "fill [] offs slot mem = Inr mem"
| "fill (elem # tup) [] slot mem = Inl UndefinedBehaviour"
| "fill (elem # tup) (off # offs) slot mem =
     (if slot + off + length elem \<le> length mem
      then fill tup offs slot (copy_bytes mem (slot + off) elem)
      else Inl UndefinedBehaviour)"

text \<open>
  \<^verbatim>\<open>operator<<\<close> for a tuple; the scalar overload wraps its value in one.
  \<open>fill\<close> takes the offsets of the argument's own tuple type, which are those
  of its fields' sizes. \<^verbatim>\<open>buffer[buffer_size]\<close> is not checked: a slot
  outside the array is undefined behaviour.
\<close>

definition put :: "params \<Rightarrow> byte list list \<Rightarrow> NpyStream \<Rightarrow> error + NpyStream" where
  "put p val s =
     (if unat (buffer_size s) < buffer_capacity p
      then
        (case fill val (offsets (map length val)) (unat (buffer_size s) * sum_sizes p)
                (buffer s) of
           Inl err \<Rightarrow> Inl err
         | Inr mem \<Rightarrow>
             (let s = s\<lparr>buffer := mem, buffer_size := buffer_size s + 1\<rparr>;
                  s = (if unat (buffer_size s) = buffer_capacity p then flush_buffer p s else s)
              in Inr (s\<lparr>values_written := values_written s + 1\<rparr>)))
      else Inl UndefinedBehaviour)"

definition put_scalar :: "params \<Rightarrow> byte list \<Rightarrow> NpyStream \<Rightarrow> error + NpyStream" where
  "put_scalar p val s = put p [val] s"

text \<open>
  \<^verbatim>\<open>write(std::span)\<close>, single-scalar streams only: the block is
  \<^verbatim>\<open>sizeof(T) * data.size()\<close> bytes starting at the first element.
\<close>

definition write_span :: "params \<Rightarrow> byte list list \<Rightarrow> NpyStream \<Rightarrow> NpyStream" where
  "write_span p data s =
     (let s = (if buffer_size s \<noteq> 0 then flush_buffer p s else s);
          s = s\<lparr>file := ofstream_write (file s)
                          (take (sizeof (T p) * length data) (concat data))\<rparr>
      in s\<lparr>values_written := values_written s + of_nat (length data)\<rparr>)"

text \<open>The destructor: flush, then finalise the header.\<close>

definition destructor :: "params \<Rightarrow> NpyStream \<Rightarrow> error + ofstream" where
  "destructor p s =
     (let s = flush_buffer p s
      in wrap_up (native p) (file s) (values_written s) (header_end_pos s) (labels s)
           (data_types p) (element_sizes p))"

text \<open>A client's calls on an open stream, and a run of them.\<close>

datatype call = Put "byte list list" | Write "byte list list" | Flush

fun step :: "params \<Rightarrow> call \<Rightarrow> NpyStream \<Rightarrow> error + NpyStream" where
  "step p (Put val) s = put p val s"
| "step p (Write data) s = Inr (write_span p data s)"
| "step p Flush s = Inr (flush_buffer p s)"

fun run :: "params \<Rightarrow> call list \<Rightarrow> NpyStream \<Rightarrow> error + NpyStream" where
  "run p [] s = Inr s"
| "run p (c # cs) s = (case step p c s of Inl err \<Rightarrow> Inl err | Inr s' \<Rightarrow> run p cs s')"

section \<open>Vocabulary of the proofs\<close>

text \<open>
  \<open>padding\<close> is the \<open>remainder\<close> of \<open>finalize_header\<close> and \<open>preamble\<close>
  its first ten bytes. \<open>dict_prefix\<close> is the dictionary as the two overloads
  build it up to the opening parenthesis of the shape, for the storage order
  \<open>C\<close>; \<open>dict_text\<close> adds the count and the closing. \<open>padded_header\<close> is
  the header after \<open>wrap_up\<close> has inserted the missing padding.
\<close>

definition padding :: "nat \<Rightarrow> nat" where
  "padding n = 16 - (10 + n) mod 16"

definition preamble :: "endian \<Rightarrow> nat \<Rightarrow> byte list" where
  "preamble e n = append_int e ([0x93] @ map of_char ''NUMPY'' @ [0x01, 0x00]) (of_nat n)"

definition dict_prefix :: "endian \<Rightarrow> string list \<Rightarrow> char list \<Rightarrow> nat list \<Rightarrow> byte list" where
  "dict_prefix e lbls dtypes szs =
     (if lbls = []
      then (case (dtypes, szs) of
              (dtype # _, wordsize # _) \<Rightarrow>
                map of_char (''{'descr': '' @ [CHR 0x27]) @ [native_endian_symbol e, of_char dtype]
                  @ map of_char (to_string wordsize)
                  @ map of_char ([CHR 0x27] @ '', 'fortran_order': '')
            | _ \<Rightarrow> [])
      else (let dict = descr_loop e (map of_char ''{'descr': ['') (zip lbls (zip dtypes szs))
            in (if length dtypes = 1 then dict @ [of_char CHR '',''] else dict)
                 @ map of_char ''], 'fortran_order': ''))
     @ map of_char ''False, 'shape': (''"

definition dict_text ::
  "endian \<Rightarrow> string list \<Rightarrow> char list \<Rightarrow> nat list \<Rightarrow> 64 word \<Rightarrow> byte list" where
  "dict_text e lbls dtypes szs k =
     dict_prefix e lbls dtypes szs @ map of_char (to_string (unat k)) @ map of_char '',), }''"

definition padded_header :: "nat \<Rightarrow> byte list \<Rightarrow> byte list" where
  "padded_header hep hdr = butlast hdr @ replicate (hep - length hdr) 0x20 @ [last hdr]"

text \<open>The header that \<open>init\<close> renders before it zero-fills and writes it.\<close>

definition placeholder :: "params \<Rightarrow> string list \<Rightarrow> error + byte list" where
  "placeholder p l =
     (if length l = 0
      then (if tuple_size p = 1
            then create_npy_header_scalar (native p) [- 1] (map_type (T p)) (sizeof (T p)) C
            else Inl LayoutMismatch)
      else (if length l \<noteq> tuple_size p then Inl LayoutMismatch
            else create_npy_header_structured (native p) [- 1] l
                   (data_types p) (element_sizes p) C))"

text \<open>
  The invariant of an open stream: the next slot of the record buffer exists,
  the record buffer has its declared size, the stream is written at its end and
  has been given the whole header region. \<open>logical\<close> is what the stream will
  have been given once the record buffer is flushed, and \<open>header_region\<close> the
  first \<open>header_end_pos\<close> bytes it has been given.
\<close>

definition stream_inv :: "params \<Rightarrow> NpyStream \<Rightarrow> bool" where
  "stream_inv p s \<longleftrightarrow>
     unat (buffer_size s) < buffer_capacity p \<and>
     length (buffer s) = buffer_capacity p * sum_sizes p \<and>
     pos (file s) = length (content (file s)) \<and>
     header_end_pos s \<le> length (content (file s))"

definition logical :: "params \<Rightarrow> NpyStream \<Rightarrow> byte list" where
  "logical p s = content (file s) @ take (unat (buffer_size s) * sum_sizes p) (buffer s)"

definition header_region :: "NpyStream \<Rightarrow> byte list" where
  "header_region s = take (header_end_pos s) (content (file s))"

text \<open>
  What the types of the source let a client pass: a tuple whose fields have the
  sizes of the record type, and a span of scalars only on a single-scalar
  stream. \<open>payload\<close> is the data a call appends, \<open>records\<close> their number.
\<close>

fun call_ok :: "params \<Rightarrow> call \<Rightarrow> bool" where
  "call_ok p (Put val) = (map length val = element_sizes p)"
| "call_ok p (Write data) = (TArgs p = [] \<and> list_all (\<lambda>v. length v = sizeof (T p)) data)"
| "call_ok p Flush = True"

fun payload :: "call \<Rightarrow> byte list" where
  "payload (Put val) = concat val"
| "payload (Write data) = concat data"
| "payload Flush = []"

fun records :: "call \<Rightarrow> nat" where
  "records (Put val) = 1"
| "records (Write data) = length data"
| "records Flush = 0"

definition follows :: "params \<Rightarrow> NpyStream \<Rightarrow> byte list \<Rightarrow> nat \<Rightarrow> NpyStream \<Rightarrow> bool" where
  "follows p s bytes n s' \<longleftrightarrow>
     stream_inv p s' \<and> logical p s' = logical p s @ bytes \<and>
     values_written s' = values_written s + of_nat n \<and>
     header_end_pos s' = header_end_pos s \<and> labels s' = labels s"

text \<open>Scalars appended one at a time with the scalar \<^verbatim>\<open>operator<<\<close>.\<close>

fun put_all :: "params \<Rightarrow> byte list list \<Rightarrow> NpyStream \<Rightarrow> error + NpyStream" where
  "put_all p [] s = Inr s"
| "put_all p (v # vs) s =
     (case put_scalar p v s of Inl err \<Rightarrow> Inl err | Inr s' \<Rightarrow> put_all p vs s')"

section \<open>Example record types\<close>

text \<open>
  Modelled from the spec: what the type-to-dtype mapper of \<^verbatim>\<open>map_type.hpp\<close>,
  which is not among the sources, returns for \<^verbatim>\<open>int32_t\<close>: the code \<open>i\<close>
  of a signed integer, with the size 4.
\<close>

definition int32_t :: scalar where "int32_t = (CHR ''i'', 4)"

text \<open>
  Modelled from the spec: what the type-to-dtype mapper returns for
  \<^verbatim>\<open>float\<close>: the code \<open>f\<close> of a floating-point number, with the size 4.
\<close>

definition float32 :: scalar where "float32 = (CHR ''f'', 4)"

text \<open>
  Modelled from the spec: what the type-to-dtype mapper returns for
  \<^verbatim>\<open>double\<close>: the code \<open>f\<close>, with the size 8.
\<close>

definition float64 :: scalar where "float64 = (CHR ''f'', 8)"

text \<open>The record types of the examples: a structured one and a single scalar.\<close>

definition int_float :: params where
  "int_float = \<lparr>native = little, T = int32_t, TArgs = [float32]\<rparr>"

definition doubles :: params where
  "doubles = \<lparr>native = little, T = float64, TArgs = []\<rparr>"

text \<open>
  Modelled from the spec: what the type-to-dtype mapper returns for
  \<^verbatim>\<open>std::complex<double>\<close>: the code \<open>c\<close> of a complex number, with the
  size 16. \<open>wide\<close> is a record of twenty of them, 320 bytes.
\<close>

definition complex128 :: scalar where "complex128 = (CHR ''c'', 16)"

definition wide :: params where
  "wide = \<lparr>native = little, T = complex128, TArgs = replicate 19 complex128\<rparr>"

text \<open>
  A \<^verbatim>\<open>float\<close> of the host is an IEEE 754 binary32 value: a sign bit, eight
  bits of biased exponent and 23 bits of fraction. \<open>binary32\<close> is its bit
  pattern and \<open>binary32_value\<close> the number a normal pattern stands for.
\<close>

definition binary32 :: "bool \<Rightarrow> nat \<Rightarrow> nat \<Rightarrow> 32 word" where
  "binary32 sgn_bit expo mant =
     push_bit 31 (if sgn_bit then 1 else 0) + push_bit 23 (of_nat expo) + of_nat mant"

definition binary32_value :: "bool \<Rightarrow> nat \<Rightarrow> nat \<Rightarrow> real" where
  "binary32_value sgn_bit expo mant =
     (if sgn_bit then - 1 else 1) * (1 + real mant / 2 ^ 23) * 2 powi (int expo - 127)"

text \<open>Inputs of the examples: two records around a flush, three doubles, two labels.\<close>

definition sample_calls :: "call list" where
  "sample_calls = [Put [[7, 0, 0, 0], [0, 0, 0x20, 0x40]], Flush, Put [[1, 0, 0, 0], [0, 0, 0, 0]]]"

definition three_doubles :: "byte list list" where
  "three_doubles = [[0, 0, 0, 0, 0, 0, 0xF0, 0x3F], [0, 0, 0, 0, 0, 0, 0, 0x40],
                    [0, 0, 0, 0, 0, 0, 0x08, 0x40]]"

definition long_labels :: "string list" where
  "long_labels = [replicate 149 CHR ''a'', ''b'']"

section \<open>Properties of the model\<close>

subsection \<open>Decimal rendering\<close>

text \<open>
  A number below \<open>10 ^ d\<close> has at most \<open>d\<close> digits, so no 64-bit count is longer
  than the 20 digits of the largest one.
\<close>

lemma length_append_str: "length (append_str v s) = length v + length s"
  by (simp add: append_str_def)

lemma to_string_length_le: "n < 10 ^ d \<Longrightarrow> 0 < d \<Longrightarrow> length (to_string n) \<le> d"
proof (induction n arbitrary: d rule: to_string.induct)
  case (1 n)
  show ?case
  proof (cases "n < 10")
    case True
    with "1.prems" show ?thesis by (subst to_string.simps) simp
  next
    case False
    obtain d' where d: "d = Suc d'" using "1.prems"(2) by (cases d) auto
    from False "1.prems"(1) d have "0 < d'" by (cases d') auto
    moreover from "1.prems"(1) d have "n div 10 < 10 ^ d'"
      by (simp add: less_mult_imp_div_less mult.commute)
    ultimately have "length (to_string (n div 10)) \<le> d'"
      using "1.IH" [OF False] by blast
    with False d show ?thesis by (subst to_string.simps) simp
  qed
qed

lemma to_string_u64_length: "length (to_string (unat (k :: 64 word))) \<le> 20"
proof -
  have "unat k < 2 ^ 64" using unsigned_less [of k] by simp
  also have "(2::nat) ^ 64 < 10 ^ 20" by simp
  finally show ?thesis by (rule to_string_length_le) simp
qed

lemma to_string_max: "to_string 18446744073709551615 = map char_of [49::nat,56,52,52,54,55,52,52,48,55,51,55,48,57,53,53,49,54,49,53]"
  by (simp add: to_string.simps)

lemma unat_max64: "unat (- 1 :: 64 word) = 18446744073709551615"
  by (simp add: unsigned_minus_1_eq_mask mask_eq_exp_minus_1)

lemma to_string_max_length: "length (to_string (unat (- 1 :: 64 word))) = 20"
  by (simp add: unat_max64 to_string_max)

subsection \<open>The bytes of a header\<close>

text \<open>
  \<open>finalize_header\<close> returns the preamble, the dictionary, the padding and a
  newline, and its length grows with the length of the dictionary. Both overloads
  build \<open>dict_text\<close> when the shape has one extent and the order is \<open>C\<close>.
\<close>

lemma padding_bounds: "1 \<le> padding n" "padding n \<le> 16"
  by (simp_all add: padding_def)
lemma padded_eq: "10 + (n + padding n) = 16 * ((10 + n) div 16 + 1)"
proof -
  have "(10 + n) mod 16 < 16" by simp
  then have "10 + (n + padding n) = (10 + n) - (10 + n) mod 16 + 16"
    unfolding padding_def by linarith
  also have "(10 + n) - (10 + n) mod 16 = 16 * ((10 + n) div 16)"
    by (simp add: minus_mod_eq_mult_div)
  finally show ?thesis by simp
qed
lemma padded_mono: "n \<le> m \<Longrightarrow> n + padding n \<le> m + padding m"
proof -
  assume "n \<le> m"
  then have "(10 + n) div 16 \<le> (10 + m) div 16" by (simp add: div_le_mono)
  then have "16 * ((10 + n) div 16 + 1) \<le> 16 * ((10 + m) div 16 + 1)" by simp
  then have "10 + (n + padding n) \<le> 10 + (m + padding m)" by (simp only: padded_eq)
  then show ?thesis by simp
qed

lemma le_bytes2: "le_bytes 2 w = [ucast w, ucast (drop_bit 8 w)]"
proof -
  have "[0..<2] = [0, Suc 0]" by (simp add: upt_rec)
  then show ?thesis by (simp add: le_bytes_def)
qed

lemma append_int_eq: "append_int e lhs w = lhs @ [ucast w, ucast (drop_bit 8 w)]"
  by (cases e) (simp_all add: append_int_def object_bytes_def le_bytes2)

lemma length_preamble: "length (preamble e n) = 10"
  by (simp add: preamble_def append_int_eq)

lemma take8_preamble: "take 8 (preamble e n) = [0x93, 78, 85, 77, 80, 89, 1, 0]"
  by (simp add: preamble_def append_int_eq)

lemma replicate_Suc_update_last:
  "(xs @ replicate (Suc r) x)[length xs + r := y] = xs @ replicate r x @ [y]"
proof -
  have "replicate (Suc r) x = replicate r x @ [x]"
    by (simp only: replicate_append_same replicate_Suc)
  then have "(xs @ replicate (Suc r) x)[length xs + r := y] = ((xs @ replicate r x) @ [x])[length (xs @ replicate r x) := y]"
    by simp
  also have "\<dots> = (xs @ replicate r x) @ [y]"
    by (simp only: list_update_length)
  finally show ?thesis by simp
qed

lemma sp: "of_char CHR '' '' = (0x20 :: byte)"
  by simp

lemma finalize_header_eq:
  "finalize_header e dict =
     (if 0xffff < length dict + padding (length dict) then Inl HeaderTooLarge
      else Inr (preamble e (length dict + padding (length dict)) @ dict
                  @ replicate (padding (length dict) - 1) 0x20 @ [0x0A]))"
proof -
  obtain r where r: "padding (length dict) = Suc r"
    using padding_bounds(1) [of "length dict"] by (cases "padding (length dict)") auto
  define d1 where "d1 = dict @ replicate (padding (length dict)) (0x20::byte)"
  have len_d1: "length d1 = length dict + padding (length dict)"
    by (simp add: d1_def)
  have "d1[length d1 - 1 := 0x0A] = (dict @ replicate (Suc r) 0x20)[length dict + r := 0x0A]"
    by (simp only: len_d1 r d1_def) simp
  also have "\<dots> = dict @ replicate r 0x20 @ [0x0A]"
    by (rule replicate_Suc_update_last)
  finally have d2: "d1[length d1 - 1 := 0x0A] = dict @ replicate r 0x20 @ [0x0A]" .
  have "finalize_header e dict =
     (if length (d1[length d1 - 1 := 0x0A]) > 0xffff then Inl HeaderTooLarge
         else Inr (preamble e (length (d1[length d1 - 1 := 0x0A])) @ d1[length d1 - 1 := 0x0A]))"
    unfolding finalize_header_def Let_def preamble_def append_str_def d1_def padding_def
    by (simp only: append.simps append_assoc sp)
  also have "\<dots> = (if 0xffff < length dict + padding (length dict) then Inl HeaderTooLarge
      else Inr (preamble e (length dict + padding (length dict)) @ dict
                  @ replicate r 0x20 @ [0x0A]))"
    unfolding d2 by (simp only: r length_append length_replicate list.size) simp
  finally show ?thesis by (simp only: r diff_Suc_1)
qed

lemma order_and_shape_single:
  "order_and_shape e dict C [k] =
     finalize_header e (dict @ map of_char ''False, 'shape': ('' @ map of_char (to_string (unat k))
        @ map of_char '',), }'')"
  by (simp add: order_and_shape_def append_str_def Let_def)

lemma updated_header_eq:
  assumes "(lbls = [] \<and> dtypes \<noteq> [] \<and> szs \<noteq> []) \<or>
           (lbls \<noteq> [] \<and> length lbls = length dtypes \<and> length dtypes = length szs)"
  shows "updated_header e k lbls dtypes szs = finalize_header e (dict_text e lbls dtypes szs k)"
proof (cases "lbls = []")
  case True
  with assms obtain dtype dts wordsize ws where "dtypes = dtype # dts" "szs = wordsize # ws"
    by (cases dtypes; cases szs) auto
  with True show ?thesis
    by (simp add: updated_header_def create_npy_header_scalar_def order_and_shape_single
        dict_prefix_def dict_text_def append_str_def Let_def)
next
  case False
  with assms have len: "length lbls = length dtypes" "length dtypes = length szs" by auto
  from False have "updated_header e k lbls dtypes szs
      = create_npy_header_structured e [k] lbls dtypes szs C"
    by (simp add: updated_header_def)
  also have "\<dots> = finalize_header e (dict_text e lbls dtypes szs k)"
    using False
    by (simp add: len create_npy_header_structured_def order_and_shape_single
        dict_prefix_def dict_text_def append_str_def Let_def)
  finally show ?thesis .
qed

lemma updated_header_mismatch:
  assumes "lbls \<noteq> []" "\<not> (length lbls = length dtypes \<and> length dtypes = length szs)"
  shows "updated_header e k lbls dtypes szs = Inl LayoutMismatch"
  using assms by (auto simp add: updated_header_def create_npy_header_structured_def Let_def)

lemma length_dict_text:
  "length (dict_text e lbls dtypes szs k)
     = length (dict_prefix e lbls dtypes szs) + length (to_string (unat k)) + 5"
  by (simp add: dict_text_def)

lemma length_dict_text_le_max:
  "length (dict_text e lbls dtypes szs k) \<le> length (dict_text e lbls dtypes szs (- 1))"
  using to_string_u64_length [of k] by (simp add: length_dict_text to_string_max_length)

subsection \<open>Padding a rendered header to the reserved length\<close>

lemma unat_missing_padding:
  assumes "n \<le> hep" "hep < 2 ^ 64"
  shows "unat (max 0 (of_nat hep - of_nat n :: 64 word)) = hep - n"
proof -
  have "(of_nat hep - of_nat n :: 64 word) = of_nat (hep - n)"
    using assms(1) by simp
  moreover have "hep - n < 2 ^ 64" using assms(2) by simp
  ultimately have "unat (of_nat hep - of_nat n :: 64 word) = hep - n"
    by (simp add: unat_of_nat)
  moreover have "max 0 (of_nat hep - of_nat n :: 64 word) = of_nat hep - of_nat n"
    by (simp add: max_def)
  ultimately show ?thesis by simp
qed

lemma length_padded_header:
  "hdr \<noteq> [] \<Longrightarrow> length hdr \<le> hep \<Longrightarrow> length (padded_header hep hdr) = hep"
  by (cases hdr rule: rev_cases) (simp_all add: padded_header_def)

lemma pad_and_patch_ok:
  assumes "hdr \<noteq> []" "length hdr \<le> hep" "hep < 2 ^ 64"
  shows "pad_and_patch hep hdr =
     Inr ((padded_header hep hdr)
            [7 := ucast ((of_nat hep - 10 :: 64 word) div 0x100),
             8 := ucast ((of_nat hep - 10 :: 64 word) mod 0x100)])"
  using length_padded_header [OF assms(1,2)] unat_missing_padding [OF assms(2,3)]
  by (simp add: pad_and_patch_def Let_def padded_header_def sp)

lemma updated_header_Inr_lengths:
  assumes "updated_header e k lbls dts szs = Inr h"
  shows "(lbls = [] \<and> dts \<noteq> [] \<and> szs \<noteq> []) \<or>
         (lbls \<noteq> [] \<and> length lbls = length dts \<and> length dts = length szs)"
proof (cases "lbls = []")
  case True
  with assms show ?thesis
    by (auto simp add: updated_header_def split: list.splits)
next
  case False
  with assms updated_header_mismatch [of lbls dts szs e k] show ?thesis by fastforce
qed

lemma updated_header_Inr:
  assumes "updated_header e k lbls dts szs = Inr h"
  defines "n \<equiv> length (dict_text e lbls dts szs k)"
  shows "n + padding n \<le> 0xffff"
    and "h = preamble e (n + padding n) @ dict_text e lbls dts szs k
               @ replicate (padding n - 1) 0x20 @ [0x0A]"
    and "length h = 10 + (n + padding n)"
proof -
  have eq: "updated_header e k lbls dts szs = finalize_header e (dict_text e lbls dts szs k)"
    by (rule updated_header_eq) (rule updated_header_Inr_lengths [OF assms(1)])
  with assms(1) have fin: "finalize_header e (dict_text e lbls dts szs k) = Inr h" by simp
  then show le: "n + padding n \<le> 0xffff"
    unfolding finalize_header_eq n_def by (simp split: if_splits)
  from fin le show h: "h = preamble e (n + padding n) @ dict_text e lbls dts szs k
               @ replicate (padding n - 1) 0x20 @ [0x0A]"
    unfolding finalize_header_eq n_def by (simp split: if_splits)
  have "1 \<le> padding n" by (rule padding_bounds)
  then show "length h = 10 + (n + padding n)"
    unfolding h by (simp add: length_preamble n_def)
qed

lemma wrap_up_header:
  assumes "updated_header e (- 1) lbls dts szs = Inr h0"
  obtains hk hp m where
    "updated_header e k lbls dts szs = Inr hk" "length hk \<le> length h0"
    "pad_and_patch (length h0) hk = Inr hp" "length hp = length h0"
    "drop 10 hp = dict_text e lbls dts szs k @ replicate m 0x20 @ [0x0A]"
    "take 7 hp = [0x93, 78, 85, 77, 80, 89, 1]"
proof -
  define n0 where "n0 = length (dict_text e lbls dts szs (- 1))"
  define n where "n = length (dict_text e lbls dts szs k)"
  define hk where "hk = preamble e (n + padding n) @ dict_text e lbls dts szs k
               @ replicate (padding n - 1) 0x20 @ [0x0A]"
  note h0 = updated_header_Inr [OF assms, folded n0_def]
  have "n \<le> n0" unfolding n_def n0_def by (rule length_dict_text_le_max)
  then have le: "n + padding n \<le> n0 + padding n0" by (rule padded_mono)
  with h0(1) have small: "\<not> 0xffff < n + padding n" by simp
  have "updated_header e k lbls dts szs = finalize_header e (dict_text e lbls dts szs k)"
    by (rule updated_header_eq) (rule updated_header_Inr_lengths [OF assms])
  with small have hk: "updated_header e k lbls dts szs = Inr hk"
    unfolding finalize_header_eq hk_def n_def by simp
  have len_hk: "length hk = 10 + (n + padding n)"
    using updated_header_Inr(3) [OF hk] by (simp add: n_def)
  with le h0(3) have fits: "length hk \<le> length h0" by simp
  have ne: "hk \<noteq> []" by (simp add: hk_def)
  have bound: "length h0 < 2 ^ 64" using h0(1,3) by simp
  define hp where "hp = (padded_header (length h0) hk)
            [7 := ucast ((of_nat (length h0) - 10 :: 64 word) div 0x100),
             8 := ucast ((of_nat (length h0) - 10 :: 64 word) mod 0x100)]"
  have pp: "pad_and_patch (length h0) hk = Inr hp"
    unfolding hp_def by (rule pad_and_patch_ok [OF ne fits bound])
  have len_hp: "length hp = length h0"
    by (simp add: hp_def length_padded_header [OF ne fits])
  have padded: "padded_header (length h0) hk = preamble e (n + padding n)
      @ dict_text e lbls dts szs k @ replicate (padding n - 1 + (length h0 - length hk)) 0x20 @ [0x0A]"
    by (simp add: padded_header_def hk_def butlast_append replicate_add)
  have "drop 10 hp = drop 10 (padded_header (length h0) hk)"
    by (simp add: hp_def drop_update_cancel)
  also have "\<dots> = dict_text e lbls dts szs k
        @ replicate (padding n - 1 + (length h0 - length hk)) 0x20 @ [0x0A]"
    unfolding padded by (simp add: length_preamble)
  finally have dict: "drop 10 hp = dict_text e lbls dts szs k
        @ replicate (padding n - 1 + (length h0 - length hk)) 0x20 @ [0x0A]" .
  have "take 7 hp = take 7 (padded_header (length h0) hk)"
    by (simp add: hp_def)
  also have "\<dots> = take 7 (take 8 (preamble e (n + padding n)))"
    unfolding padded by (simp add: length_preamble)
  also have "\<dots> = [0x93, 78, 85, 77, 80, 89, 1]"
    unfolding take8_preamble by simp
  finally have magic: "take 7 hp = [0x93, 78, 85, 77, 80, 89, 1]" .
  from hk fits pp len_hp dict magic show ?thesis by (rule that)
qed

text \<open>
  The length of a padded dictionary is 6 modulo 16, so the low byte of the length
  field of a rendered header is never 0.
\<close>

lemma preamble_nth_8: "preamble e n ! 8 = (of_nat n :: byte)"
proof -
  have "preamble e n ! 8 = (ucast (of_nat n :: 16 word) :: byte)"
    by (simp add: preamble_def append_int_eq)
  also have "\<dots> = of_nat (take_bit 16 n)"
    by (simp add: unsigned_of_nat)
  also have "\<dots> = of_nat n"
    by (simp add: word_of_nat_eq_iff)
  finally show ?thesis .
qed

lemma padded_low_byte: "(of_nat (n + padding n) :: byte) \<noteq> 0"
proof
  assume "(of_nat (n + padding n) :: byte) = 0"
  then have "2 ^ LENGTH(8) dvd n + padding n" by (simp only: word_of_nat_eq_0_iff)
  then have "256 dvd n + padding n" by simp
  then have "16 dvd n + padding n" by (rule dvd_trans [rotated]) simp
  moreover have "16 dvd 10 + (n + padding n)" by (simp add: padded_eq)
  ultimately have "(16::nat) dvd 10" using dvd_add_left_iff [of 16 "n + padding n" 10]
    by (simp add: ac_simps)
  then show False by simp
qed

lemma placeholder_byte_8:
  assumes "updated_header e k lbls dts szs = Inr h"
  shows "h ! 8 \<noteq> 0"
proof -
  have "h ! 8 = preamble e (length (dict_text e lbls dts szs k)
                  + padding (length (dict_text e lbls dts szs k))) ! 8"
    by (subst updated_header_Inr(2) [OF assms]) (simp add: nth_append length_preamble)
  then show ?thesis by (simp only: preamble_nth_8 padded_low_byte) simp
qed

subsection \<open>Buffer and file\<close>

text \<open>
  Each call keeps the invariant, appends its payload to the bytes the stream is
  given, flushed or still in the record buffer, adds the number of its records to \<open>values_written\<close> and leaves
  \<open>header_end_pos\<close> and the labels alone.
\<close>

lemma buffer_capacity_pos: "0 < buffer_capacity p"
  by (simp add: buffer_capacity_def)

lemma buffer_capacity_le: "buffer_capacity p \<le> 256"
  by (simp add: buffer_capacity_def)

lemma length_copy_bytes: "a + length bs \<le> length mem \<Longrightarrow> length (copy_bytes mem a bs) = length mem"
  by (simp add: copy_bytes_def)

lemma fill_ok:
  "slot + a + length (concat val) \<le> length mem \<Longrightarrow>
   fill val (offsets_from a (map length val)) slot mem =
     Inr (take (slot + a) mem @ concat val @ drop (slot + a + length (concat val)) mem)"
proof (induction val arbitrary: a mem)
  case Nil
  then show ?case by simp
next
  case (Cons elem tup)
  let ?mem = "copy_bytes mem (slot + a) elem"
  from Cons.prems have fits: "slot + a + length elem \<le> length mem" by simp
  then have len: "length ?mem = length mem" by (simp add: copy_bytes_def)
  from Cons.prems len have "slot + (a + length elem) + length (concat tup) \<le> length ?mem"
    by simp
  then have "fill tup (offsets_from (a + length elem) (map length tup)) slot ?mem =
     Inr (take (slot + (a + length elem)) ?mem @ concat tup
            @ drop (slot + (a + length elem) + length (concat tup)) ?mem)"
    by (rule Cons.IH)
  moreover have "take (slot + (a + length elem)) ?mem = take (slot + a) mem @ elem"
    using fits by (simp add: copy_bytes_def)
  moreover have "drop (slot + (a + length elem) + length (concat tup)) ?mem
      = drop (slot + a + length (concat (elem # tup))) mem"
    using fits by (simp add: copy_bytes_def ac_simps)
  ultimately show ?case using fits by simp
qed

lemma length_concat_typed:
  "map length val = element_sizes p \<Longrightarrow> length (concat val) = sum_sizes p"
  by (simp add: length_concat sum_sizes_def)

lemma flush_buffer_props:
  assumes "pos (file s) = length (content (file s))"
  shows "content (file (flush_buffer p s)) = logical p s"
    and "pos (file (flush_buffer p s)) = length (logical p s)"
    and "buffer_size (flush_buffer p s) = 0"
    and "buffer (flush_buffer p s) = buffer s"
    and "values_written (flush_buffer p s) = values_written s"
    and "header_end_pos (flush_buffer p s) = header_end_pos s"
    and "labels (flush_buffer p s) = labels s"
  using assms by (simp_all add: flush_buffer_def ofstream_write_def logical_def)

lemma flush_buffer_inv:
  assumes "length (buffer s) = buffer_capacity p * sum_sizes p"
    "pos (file s) = length (content (file s))"
    "header_end_pos s \<le> length (content (file s))"
  shows "stream_inv p (flush_buffer p s)" "logical p (flush_buffer p s) = logical p s"
  using assms buffer_capacity_pos [of p]
  by (simp_all add: stream_inv_def flush_buffer_props logical_def [of p "flush_buffer p s"])
     (simp add: logical_def)

lemma unat_buffer_size_Suc:
  assumes "unat (w :: 64 word) < 256"
  shows "unat (w + 1) = unat w + 1"
proof -
  have "unat (w + 1) = (unat w + 1) mod 2 ^ 64" by (simp add: unat_word_ariths)
  also have "\<dots> = unat w + 1" using assms by simp
  finally show ?thesis .
qed

lemma follows_flush:
  assumes "stream_inv p s"
  shows "follows p s [] 0 (flush_buffer p s)"
  using assms flush_buffer_inv [of s p]
  by (simp add: follows_def stream_inv_def flush_buffer_props)

lemma put_ok:
  assumes inv: "stream_inv p s" and typed: "map length val = element_sizes p"
  shows "\<exists>s'. put p val s = Inr s' \<and> follows p s (concat val) 1 s'"
proof -
  define j where "j = unat (buffer_size s)"
  define S where "S = sum_sizes p"
  define mem where "mem = take (j * S) (buffer s) @ concat val @ drop (j * S + S) (buffer s)"
  define s1 where "s1 = s\<lparr>buffer := mem, buffer_size := buffer_size s + 1\<rparr>"
  from inv have j: "j < buffer_capacity p"
    and len: "length (buffer s) = buffer_capacity p * S"
    and at_end: "pos (file s) = length (content (file s))"
    and hep: "header_end_pos s \<le> length (content (file s))"
    by (simp_all add: stream_inv_def j_def S_def)
  have lv: "length (concat val) = S"
    unfolding S_def using typed by (rule length_concat_typed)
  from j have "Suc j * S \<le> buffer_capacity p * S"
    by (intro mult_le_mono1) simp
  then have room: "j * S + S \<le> length (buffer s)" by (simp add: len)
  then have "j * S + 0 + length (concat val) \<le> length (buffer s)" by (simp add: lv)
  then have "fill val (offsets_from 0 (map length val)) (j * S) (buffer s) =
     Inr (take (j * S + 0) (buffer s) @ concat val
            @ drop (j * S + 0 + length (concat val)) (buffer s))"
    by (rule fill_ok)
  then have filled: "fill val (offsets (map length val)) (j * S) (buffer s) = Inr mem"
    by (simp add: offsets_def mem_def lv)
  have len_mem: "length mem = buffer_capacity p * S"
    using room by (simp add: mem_def lv len [symmetric])
  from j buffer_capacity_le [of p] have "unat (buffer_size s) < 256" by (simp add: j_def)
  then have j1: "unat (buffer_size s1) = j + 1"
    by (simp add: s1_def unat_buffer_size_Suc j_def)
  have "take ((j + 1) * S) mem = take (j * S) (buffer s) @ concat val"
    using room by (simp add: mem_def lv)
  then have log1: "logical p s1 = logical p s @ concat val"
    by (simp add: logical_def s1_def [symmetric] j1 S_def [symmetric])
       (simp add: s1_def j_def)
  have fields1: "pos (file s1) = length (content (file s1))"
      "header_end_pos s1 \<le> length (content (file s1))"
      "length (buffer s1) = buffer_capacity p * sum_sizes p"
      "values_written s1 = values_written s" "header_end_pos s1 = header_end_pos s"
      "labels s1 = labels s"
    using at_end hep len_mem by (simp_all add: s1_def S_def)
  define s2 where "s2 = (if unat (buffer_size s1) = buffer_capacity p then flush_buffer p s1 else s1)"
  have inv2: "stream_inv p s2" and log2: "logical p s2 = logical p s1"
    and same2: "values_written s2 = values_written s" "header_end_pos s2 = header_end_pos s"
      "labels s2 = labels s"
    using flush_buffer_inv [of s1 p] fields1 j j1
    by (auto simp add: s2_def flush_buffer_props stream_inv_def)
  have "put p val s = Inr (s2\<lparr>values_written := values_written s2 + 1\<rparr>)"
    using j filled
    by (simp add: put_def j_def [symmetric] S_def [symmetric] s1_def [symmetric] Let_def
        s2_def [symmetric])
  moreover have "follows p s (concat val) 1 (s2\<lparr>values_written := values_written s2 + 1\<rparr>)"
    using inv2 log2 log1 same2
    by (simp add: follows_def stream_inv_def logical_def)
  ultimately show ?thesis by blast
qed

lemma length_concat_uniform:
  "list_all (\<lambda>v. length v = n) data \<Longrightarrow> length (concat data) = n * length data"
  by (induction data) simp_all

lemma write_span_ok:
  assumes inv: "stream_inv p s" and typed: "list_all (\<lambda>v. length v = sizeof (T p)) data"
  shows "follows p s (concat data) (length data) (write_span p data s)"
proof -
  define s1 where "s1 = (if buffer_size s \<noteq> 0 then flush_buffer p s else s)"
  from inv have at_end: "pos (file s) = length (content (file s))"
    and hep: "header_end_pos s \<le> length (content (file s))"
    and len: "length (buffer s) = buffer_capacity p * sum_sizes p"
    by (simp_all add: stream_inv_def)
  have s1: "content (file s1) = logical p s" "pos (file s1) = length (logical p s)"
    "buffer_size s1 = 0" "buffer s1 = buffer s" "values_written s1 = values_written s"
    "header_end_pos s1 = header_end_pos s" "labels s1 = labels s"
    using at_end by (simp_all add: s1_def flush_buffer_props) (simp_all add: logical_def)
  have block: "take (sizeof (T p) * length data) (concat data) = concat data"
    using length_concat_uniform [OF typed] by simp
  have ws: "write_span p data s =
      s1\<lparr>file := ofstream_write (file s1) (concat data),
         values_written := values_written s1 + of_nat (length data)\<rparr>"
    by (simp add: write_span_def Let_def s1_def [symmetric] block)
  have "header_end_pos s \<le> length (logical p s)"
    using hep by (simp add: logical_def)
  then show ?thesis
    using len buffer_capacity_pos [of p]
    by (simp add: ws follows_def stream_inv_def logical_def [of p "_\<lparr>file := _, values_written := _\<rparr>"]
        s1 ofstream_write_def)
qed

lemma follows_refl: "stream_inv p s \<Longrightarrow> follows p s [] 0 s"
  by (simp add: follows_def)

lemma follows_trans:
  "follows p s b n s' \<Longrightarrow> follows p s' b' n' s'' \<Longrightarrow> follows p s (b @ b') (n + n') s''"
  by (simp add: follows_def)

lemma step_ok:
  assumes "stream_inv p s" "call_ok p c"
  shows "\<exists>s'. step p c s = Inr s' \<and> follows p s (payload c) (records c) s'"
proof (cases c)
  case (Put val)
  with assms put_ok [of p s val] show ?thesis by simp
next
  case (Write data)
  with assms write_span_ok [of p s data] show ?thesis by simp
next
  case Flush
  with assms follows_flush [of p s] show ?thesis by simp
qed

lemma run_ok:
  assumes "stream_inv p s" "list_all (call_ok p) cs"
  shows "\<exists>s'. run p cs s = Inr s' \<and>
            follows p s (concat (map payload cs)) (sum_list (map records cs)) s'"
  using assms
proof (induction cs arbitrary: s)
  case Nil
  then show ?case by (simp add: follows_refl)
next
  case (Cons c cs)
  from Cons.prems obtain s1 where s1: "step p c s = Inr s1"
    and f1: "follows p s (payload c) (records c) s1"
    using step_ok [of p s c] by auto
  from f1 have "stream_inv p s1" by (simp add: follows_def)
  with Cons.prems Cons.IH [of s1] obtain s' where s': "run p cs s1 = Inr s'"
    and f2: "follows p s1 (concat (map payload cs)) (sum_list (map records cs)) s'"
    by auto
  from follows_trans [OF f1 f2] s1 s' show ?case by simp
qed

subsection \<open>Construction and destruction\<close>

lemma data_types_Cons: "data_types p = map_type (T p) # map map_type (TArgs p)"
  by (simp add: data_types_def tuple_type_def)

lemma element_sizes_Cons: "element_sizes p = sizeof (T p) # map sizeof (TArgs p)"
  by (simp add: element_sizes_def tuple_type_def)

lemma tuple_size_eq: "tuple_size p = Suc (length (TArgs p))"
  by (simp add: tuple_size_def tuple_type_def)

lemma init_Inl_disk: "init p s d = Inl (err, d') \<Longrightarrow> d' = d"
  by (auto simp add: init_def Let_def split: sum.splits)

lemma NpyStream_labels_Inr:
  assumes "NpyStream_labels p d l = Inr s0"
  obtains h0 where
    "updated_header (native p) (- 1) l (data_types p) (element_sizes p) = Inr h0"
    "header_end_pos s0 = length h0"
    "content (file s0) = take 8 h0 @ replicate (length h0 - 8) 0"
    "pos (file s0) = length h0"
    "values_written s0 = 0" "buffer_size s0 = 0" "labels s0 = l"
    "buffer s0 = replicate (buffer_capacity p * sum_sizes p) 0"
    "l = [] \<longrightarrow> TArgs p = []" "l \<noteq> [] \<longrightarrow> length l = tuple_size p"
proof -
  define hdr where "hdr = (if length l = 0
             then (if tuple_size p = 1
                   then create_npy_header_scalar (native p) [- 1]
                          (map_type (T p)) (sizeof (T p)) C
                   else Inl LayoutMismatch)
             else (if length l \<noteq> tuple_size p then Inl LayoutMismatch
                   else create_npy_header_structured (native p) [- 1] l
                          (data_types p) (element_sizes p) C))"
  have init: "NpyStream_labels p d l = (case hdr of
           Inl err \<Rightarrow> Inl (err, d)
         | Inr header \<Rightarrow>
              Inr ((fresh p)\<lparr>labels := l, header_end_pos := length header,
                        file := ofstream_write ofstream_open
                           (take 8 header @ replicate (length header - 8) 0)\<rparr>))"
    unfolding NpyStream_labels_def init_def Let_def hdr_def by simp
  with assms obtain h0 where h0: "hdr = Inr h0"
    and s0: "s0 = (fresh p)\<lparr>labels := l, header_end_pos := length h0,
                        file := ofstream_write ofstream_open
                           (take 8 h0 @ replicate (length h0 - 8) 0)\<rparr>"
    by (auto split: sum.splits)
  from h0 have shape: "l = [] \<longrightarrow> TArgs p = []" "l \<noteq> [] \<longrightarrow> length l = tuple_size p"
    by (auto simp add: hdr_def tuple_size_eq split: if_splits)
  from h0 shape have "updated_header (native p) (- 1) l (data_types p) (element_sizes p) = Inr h0"
    by (auto simp add: hdr_def updated_header_def data_types_Cons element_sizes_Cons
        tuple_size_eq split: if_splits)
  moreover have "8 \<le> length h0 \<or> length h0 < 8" by arith
  then have "length (take 8 h0 @ replicate (length h0 - 8) (0::byte)) = length h0" by auto
  then have "pos (file s0) = length h0"
    by (simp add: s0 ofstream_write_def ofstream_open_def)
  moreover have "content (file s0) = take 8 h0 @ replicate (length h0 - 8) 0"
    by (simp add: s0 ofstream_write_def ofstream_open_def)
  moreover have "header_end_pos s0 = length h0" "values_written s0 = 0" "buffer_size s0 = 0"
    "labels s0 = l" "buffer s0 = replicate (buffer_capacity p * sum_sizes p) 0"
    by (simp_all add: s0 fresh_def)
  ultimately show ?thesis using shape by (intro that) simp_all
qed

lemma NpyStream_labels_inv:
  assumes "NpyStream_labels p d l = Inr s0"
  shows "stream_inv p s0" "logical p s0 = content (file s0)"
proof -
  from assms obtain h0 where
    "updated_header (native p) (- 1) l (data_types p) (element_sizes p) = Inr h0"
    "header_end_pos s0 = length h0"
    "content (file s0) = take 8 h0 @ replicate (length h0 - 8) 0"
    "pos (file s0) = length h0"
    "buffer_size s0 = 0"
    "buffer s0 = replicate (buffer_capacity p * sum_sizes p) 0"
    by (rule NpyStream_labels_Inr)
  moreover from this(1) have "10 \<le> length h0" using updated_header_Inr(3) by fastforce
  ultimately show "stream_inv p s0" "logical p s0 = content (file s0)"
    using buffer_capacity_pos [of p] by (simp_all add: stream_inv_def logical_def)
qed

lemma NpyStream_path_eq:
  "NpyStream_path p d =
     NpyStream_labels p d
       (if tuple_size p > 1 then map (\<lambda>i. ''f'' @ to_string i) [0..<tuple_size p] else [])"
  by (simp add: NpyStream_path_def NpyStream_labels_def Let_def fresh_def)

lemma destructor_eq:
  assumes "pos (file s) = length (content (file s))"
  shows "destructor p s =
     wrap_up (native p) \<lparr>content = logical p s, pos = length (logical p s)\<rparr> (values_written s)
       (header_end_pos s) (labels s) (data_types p) (element_sizes p)"
proof -
  have f: "file (flush_buffer p s) = \<lparr>content = logical p s, pos = length (logical p s)\<rparr>"
    using flush_buffer_props(1,2) [OF assms, of p] by (cases "file (flush_buffer p s)") simp
  show ?thesis
    unfolding destructor_def Let_def f by (simp add: flush_buffer_props [OF assms])
qed

lemma destructor_ok:
  assumes inv: "stream_inv p s"
    and hdr: "updated_header (native p) (- 1) (labels s) (data_types p) (element_sizes p) = Inr h0"
    and hep: "header_end_pos s = length h0"
  obtains f hk hp m where
    "destructor p s = Inr f"
    "content f = hp @ drop (length h0) (logical p s)"
    "updated_header (native p) (values_written s) (labels s) (data_types p) (element_sizes p) = Inr hk"
    "length hk \<le> length h0"
    "pad_and_patch (length h0) hk = Inr hp"
    "length hp = length h0"
    "drop 10 hp = dict_text (native p) (labels s) (data_types p) (element_sizes p) (values_written s)
        @ replicate m 0x20 @ [0x0A]"
    "take 7 hp = [0x93, 78, 85, 77, 80, 89, 1]"
proof -
  from hdr obtain hk hp m where h:
    "updated_header (native p) (values_written s) (labels s) (data_types p) (element_sizes p) = Inr hk"
    "length hk \<le> length h0"
    "pad_and_patch (length h0) hk = Inr hp" "length hp = length h0"
    "drop 10 hp = dict_text (native p) (labels s) (data_types p) (element_sizes p) (values_written s)
        @ replicate m 0x20 @ [0x0A]"
    "take 7 hp = [0x93, 78, 85, 77, 80, 89, 1]"
    by (rule wrap_up_header)
  define f where "f = ofstream_write (seekp \<lparr>content = logical p s, pos = length (logical p s)\<rparr> 0) hp"
  from inv have "pos (file s) = length (content (file s))" by (simp add: stream_inv_def)
  then have "destructor p s = Inr f"
    by (simp add: destructor_eq wrap_up_def h(1,3) hep f_def)
  moreover have "content f = hp @ drop (length h0) (logical p s)"
    by (simp add: f_def ofstream_write_def seekp_def h(4))
  ultimately show ?thesis using h by (intro that) simp_all
qed

lemma length_payload:
  "call_ok p c \<Longrightarrow> length (payload c) = records c * sum_sizes p"
proof (cases c)
  case (Put val)
  assume "call_ok p c"
  with Put show ?thesis by (simp add: length_concat_typed)
next
  case (Write data)
  assume "call_ok p c"
  with Write have "TArgs p = []" "list_all (\<lambda>v. length v = sizeof (T p)) data" by simp_all
  then show ?thesis
    using Write by (simp add: length_concat_uniform sum_sizes_def element_sizes_def tuple_type_def)
next
  case Flush
  then show ?thesis by simp
qed

lemma length_payloads:
  "list_all (call_ok p) cs \<Longrightarrow>
   length (concat (map payload cs)) = sum_list (map records cs) * sum_sizes p"
  by (induction cs) (simp_all add: length_payload add_mult_distrib)

lemma put_all_run: "put_all p vs s = run p (map (\<lambda>v. Put [v]) vs) s"
  by (induction vs arbitrary: s) (simp_all add: put_scalar_def split: sum.splits)

lemma unat_of_nat64: "k < 2 ^ 64 \<Longrightarrow> unat (of_nat k :: 64 word) = k"
  by (simp add: unat_of_nat)

subsection \<open>The examples\<close>

lemma NpyStream_labels_unfold:
  "NpyStream_labels p d l =
     (case placeholder p l of
        Inl err \<Rightarrow> Inl (err, d)
      | Inr header \<Rightarrow>
          Inr ((fresh p)\<lparr>labels := l, header_end_pos := length header,
                 file := ofstream_write ofstream_open
                           (take 8 header @ replicate (length header - 8) 0)\<rparr>))"
  unfolding NpyStream_labels_def init_def Let_def placeholder_def by simp

lemma placeholder_eq:
  assumes "l = [] \<and> TArgs p = [] \<or> l \<noteq> [] \<and> length l = tuple_size p"
  shows "placeholder p l = updated_header (native p) (- 1) l (data_types p) (element_sizes p)"
  using assms
  by (auto simp add: placeholder_def updated_header_def data_types_Cons element_sizes_Cons
      tuple_size_eq)

lemma NpyStream_labels_succeeds:
  assumes "l = [] \<and> TArgs p = [] \<or> l \<noteq> [] \<and> length l = tuple_size p"
    and "updated_header (native p) (- 1) l (data_types p) (element_sizes p) = Inr h0"
  shows "\<exists>s0. NpyStream_labels p d l = Inr s0"
  by (simp add: NpyStream_labels_unfold placeholder_eq [OF assms(1)] assms(2))

lemmas layout_simps = int_float_def doubles_def int32_t_def float32_def float64_def
  tuple_size_def tuple_type_def data_types_def element_sizes_def sum_sizes_def map_type_def
  sizeof_def

lemmas dict_simps = dict_text_def dict_prefix_def append_str_def native_endian_symbol_def
  Let_def to_string.simps unat_max64

lemma header_from_dict_length:
  assumes "(lbls = [] \<and> dts \<noteq> [] \<and> szs \<noteq> []) \<or>
           (lbls \<noteq> [] \<and> length lbls = length dts \<and> length dts = length szs)"
    and "length (dict_text e lbls dts szs k) = n" and "n + padding n \<le> 0xffff"
  shows "\<exists>h. updated_header e k lbls dts szs = Inr h \<and> length h = 10 + (n + padding n)"
proof -
  from assms(2,3) have "updated_header e k lbls dts szs =
      Inr (preamble e (n + padding n) @ dict_text e lbls dts szs k
                  @ replicate (padding n - 1) 0x20 @ [0x0A])"
    by (simp add: updated_header_eq [OF assms(1)] finalize_header_eq)
  then show ?thesis
    using updated_header_Inr(3) assms(2) by blast
qed

lemma int_float_open:
  "\<exists>s0. NpyStream_labels int_float None [''a'', ''b''] = Inr s0 \<and> header_end_pos s0 = 112"
proof -
  have "length (dict_text little [''a'', ''b''] ''if'' [4, 4] (- 1)) = 99"
    by (simp add: dict_simps)
  moreover have "(99::nat) + padding 99 \<le> 0xffff" by (simp add: padding_def)
  ultimately obtain h0 where h0: "updated_header little (- 1) [''a'', ''b''] ''if'' [4, 4] = Inr h0"
    and len: "length h0 = 10 + (99 + padding 99)"
    using header_from_dict_length [of "[''a'', ''b'']" "''if''" "[4, 4]" little "- 1" 99]
    by auto
  have params: "native int_float = little" "data_types int_float = ''if''"
    "element_sizes int_float = [4, 4]" "tuple_size int_float = 2" "TArgs int_float = [float32]"
    by (simp_all add: layout_simps)
  from h0 obtain s0 where s0: "NpyStream_labels int_float None [''a'', ''b''] = Inr s0"
    using NpyStream_labels_succeeds [of "[''a'', ''b'']" int_float h0 None]
    by (auto simp add: params)
  then obtain h0' where "updated_header (native int_float) (- 1) [''a'', ''b'']
        (data_types int_float) (element_sizes int_float) = Inr h0'"
    "header_end_pos s0 = length h0'"
    by (rule NpyStream_labels_Inr)
  with h0 len have "header_end_pos s0 = 112" by (simp add: params padding_def)
  with s0 show ?thesis by blast
qed

lemma doubles_open:
  "\<exists>s0. NpyStream_labels doubles None [] = Inr s0 \<and> header_end_pos s0 = 96"
proof -
  have "length (dict_text little [] ''f'' [8] (- 1)) = 76"
    by (simp add: dict_simps)
  moreover have "(76::nat) + padding 76 \<le> 0xffff" by (simp add: padding_def)
  ultimately obtain h0 where h0: "updated_header little (- 1) [] ''f'' [8] = Inr h0"
    and len: "length h0 = 10 + (76 + padding 76)"
    using header_from_dict_length [of "[]" "''f''" "[8]" little "- 1" 76]
    by auto
  have params: "native doubles = little" "data_types doubles = ''f''"
    "element_sizes doubles = [8]" "tuple_size doubles = 1" "TArgs doubles = []"
    by (simp_all add: layout_simps)
  from h0 obtain s0 where s0: "NpyStream_labels doubles None [] = Inr s0"
    using NpyStream_labels_succeeds [of "[]" doubles h0 None]
    by (auto simp add: params)
  then obtain h0' where "updated_header (native doubles) (- 1) []
        (data_types doubles) (element_sizes doubles) = Inr h0'"
    "header_end_pos s0 = length h0'"
    by (rule NpyStream_labels_Inr)
  with h0 len have "header_end_pos s0 = 96" by (simp add: params padding_def)
  with s0 show ?thesis by blast
qed

lemma sample_calls_ok: "list_all (call_ok int_float) sample_calls"
  by (simp add: sample_calls_def layout_simps)

lemma le_bytes4:
  "le_bytes 4 w = [ucast w, ucast (drop_bit 8 w), ucast (drop_bit 16 w), ucast (drop_bit 24 w)]"
proof -
  have "[0..<4] = [0, 1, 2, 3]" by (simp add: upt_rec)
  then show ?thesis by (simp add: le_bytes_def)
qed

lemma seven_bytes: "object_bytes little 4 (7 :: 32 word) = [7, 0, 0, 0]"
  by (simp add: object_bytes_def le_bytes4 drop_bit_eq_div)

lemma two_and_a_half_bits: "binary32 False 128 0x200000 = 0x40200000"
  by (simp add: binary32_def)

lemma two_and_a_half_bytes:
  "object_bytes little 4 (binary32 False 128 0x200000) = [0, 0, 0x20, 0x40]"
  by (simp add: two_and_a_half_bits object_bytes_def le_bytes4 drop_bit_eq_div)

lemma two_and_a_half_value: "binary32_value False 128 0x200000 = 5 / 2"
  by (simp add: binary32_value_def)

lemma int_float_params:
  "native int_float = little" "data_types int_float = ''if''"
  "element_sizes int_float = [4, 4]" "tuple_size int_float = 2" "TArgs int_float = [float32]"
  "sum_sizes int_float = 8"
  by (simp_all add: layout_simps)

lemma byte_of_char_of: "(of_char (char_of (n::nat)) :: byte) = of_nat n"
proof -
  have "(of_char (char_of n) :: byte) = of_nat (of_char (char_of n) :: nat)"
    by (simp only: of_nat_of_char)
  also have "\<dots> = of_nat (n mod 256)" by simp
  also have "\<dots> = of_nat n" by (simp add: word_of_nat_eq_iff take_bit_eq_mod)
  finally show ?thesis .
qed

lemma long_labels_dict_lengths:
  "length (dict_text little long_labels ''if'' [4, 4] (- 1)) = 247"
  "length (dict_text little long_labels ''if'' [4, 4] 0) = 228"
  by (simp_all add: dict_simps long_labels_def)

lemma take_10_patched:
  assumes "updated_header e k lbls dts szs = Inr hk"
    and "length (dict_text e lbls dts szs k) = n"
    and "pad_and_patch hep hk = Inr hp"
    and "length hk \<le> hep" and "hep < 2 ^ 64"
  shows "take 10 hp = (preamble e (n + padding n))
            [7 := ucast ((of_nat hep - 10 :: 64 word) div 0x100),
             8 := ucast ((of_nat hep - 10 :: 64 word) mod 0x100)]"
proof -
  have hk: "hk = preamble e (n + padding n) @ dict_text e lbls dts szs k
               @ replicate (padding n - 1) 0x20 @ [0x0A]"
    using updated_header_Inr(2) [OF assms(1)] by (simp add: assms(2))
  then have ne: "hk \<noteq> []" by simp
  have "take 10 (padded_header hep hk) = preamble e (n + padding n)"
    by (simp add: padded_header_def hk butlast_append length_preamble)
  moreover from pad_and_patch_ok [OF ne assms(4,5)] assms(3)
  have "hp = (padded_header hep hk)
            [7 := ucast ((of_nat hep - 10 :: 64 word) div 0x100),
             8 := ucast ((of_nat hep - 10 :: 64 word) mod 0x100)]"
    by simp
  ultimately show ?thesis by (simp add: take_update_swap)
qed

section \<open>The claims\<close>

text \<open>
  Claim C1. A stream is opened and receives any sequence of well-typed calls of
  \<^verbatim>\<open>operator<<\<close>, \<^verbatim>\<open>write\<close> and \<open>flush_buffer\<close> that append \<open>k\<close>
  records in all, where \<open>k\<close> fits the 64-bit counter. Then every call returns,
  the destructor returns, the size of the file is \<open>header_end_pos\<close> plus \<open>k\<close>
  times the record stride, the header region is the header rendered for the shape
  \<open>[k]\<close> and padded by \<open>wrap_up\<close>, and its dictionary declares the shape
  \<open>(k,)\<close>.
\<close>

theorem round_trip_count:
  assumes ctor: "NpyStream_labels p d l = Inr s0"
    and ok: "list_all (call_ok p) cs"
    and bound: "sum_list (map records cs) < 2 ^ 64"
  shows "\<exists>s f hk m. run p cs s0 = Inr s \<and> destructor p s = Inr f \<and>
           length (content f) = header_end_pos s0 + sum_list (map records cs) * sum_sizes p \<and>
           updated_header (native p) (of_nat (sum_list (map records cs))) l
              (data_types p) (element_sizes p) = Inr hk \<and>
           pad_and_patch (header_end_pos s0) hk = Inr (take (header_end_pos s0) (content f)) \<and>
           drop 10 (take (header_end_pos s0) (content f)) =
             dict_prefix (native p) l (data_types p) (element_sizes p)
               @ map of_char (to_string (sum_list (map records cs)))
               @ map of_char '',), }'' @ replicate m 0x20 @ [0x0A]"
proof -
  define k where "k = sum_list (map records cs)"
  from ctor obtain h0 where h0:
    "updated_header (native p) (- 1) l (data_types p) (element_sizes p) = Inr h0"
    "header_end_pos s0 = length h0" "values_written s0 = 0" "labels s0 = l"
    "pos (file s0) = length h0"
    "content (file s0) = take 8 h0 @ replicate (length h0 - 8) 0"
    by (rule NpyStream_labels_Inr)
  note inv0 = NpyStream_labels_inv [OF ctor]
  from h0(5) inv0(1) have len0: "length (logical p s0) = length h0"
    by (simp add: inv0(2) stream_inv_def)
  from run_ok [OF inv0(1) ok] obtain s where s: "run p cs s0 = Inr s"
    and f: "follows p s0 (concat (map payload cs)) k s"
    unfolding k_def by blast
  from f have inv: "stream_inv p s" and log: "logical p s = logical p s0 @ concat (map payload cs)"
    and vw: "values_written s = of_nat k" and same: "header_end_pos s = length h0" "labels s = l"
    by (simp_all add: follows_def h0)
  from inv h0(1) same obtain f' hk hp m where d:
    "destructor p s = Inr f'"
    "content f' = hp @ drop (length h0) (logical p s)"
    "updated_header (native p) (values_written s) (labels s) (data_types p) (element_sizes p) = Inr hk"
    "pad_and_patch (length h0) hk = Inr hp"
    "length hp = length h0"
    "drop 10 hp = dict_text (native p) (labels s) (data_types p) (element_sizes p) (values_written s)
        @ replicate m 0x20 @ [0x0A]"
    by (auto elim: destructor_ok)
  have data: "drop (length h0) (logical p s) = concat (map payload cs)"
    by (simp add: log len0)
  have region: "take (length h0) (content f') = hp"
    by (simp add: d(2,5))
  have "length (content f') = length h0 + k * sum_sizes p"
    by (simp add: d(2,5) data length_payloads [OF ok] k_def)
  moreover have "drop 10 hp = dict_prefix (native p) l (data_types p) (element_sizes p)
               @ map of_char (to_string k) @ map of_char '',), }'' @ replicate m 0x20 @ [0x0A]"
    using bound by (simp add: d(6) dict_text_def vw same unat_of_nat64 k_def)
  ultimately show ?thesis
    using s d(1,3,4) region unfolding k_def [symmetric] h0(2) vw same by blast
qed

text \<open>An example that meets the hypotheses, and what the theorem gives for it.\<close>

theorem round_trip_count_witness:
  "\<exists>s0. NpyStream_labels int_float None [''a'', ''b''] = Inr s0 \<and>
     list_all (call_ok int_float) sample_calls \<and>
     sum_list (map records sample_calls) < 2 ^ 64 \<and>
     (\<exists>s f. run int_float sample_calls s0 = Inr s \<and> destructor int_float s = Inr f \<and>
        length (content f) = 112 + 2 * 8)"
proof -
  from int_float_open obtain s0 where s0: "NpyStream_labels int_float None [''a'', ''b''] = Inr s0"
    and hep: "header_end_pos s0 = 112"
    by blast
  have n: "sum_list (map records sample_calls) = 2" by (simp add: sample_calls_def)
  then have bound: "sum_list (map records sample_calls) < 2 ^ 64" by simp
  have stride: "sum_sizes int_float = 8" by (simp add: layout_simps)
  from round_trip_count [OF s0 sample_calls_ok bound] s0 bound
  show ?thesis
    unfolding hep n stride using sample_calls_ok by fastforce
qed

text \<open>
  Claim C2. For a stream that was opened, \<open>header_end_pos\<close> is the length of the
  header rendered for the shape \<open>[UINT64_MAX]\<close>. For every 64-bit count \<open>k\<close> the
  header rendered for \<open>[k]\<close> is rendered without error and is no longer, and
  \<open>wrap_up\<close> pads it to exactly \<open>header_end_pos\<close> bytes, its
  \<^verbatim>\<open>assert\<close> holding.
\<close>

theorem header_length_invariance:
  assumes ctor: "NpyStream_labels p d l = Inr s0"
  shows "\<exists>h0 hk hp.
           updated_header (native p) (- 1) l (data_types p) (element_sizes p) = Inr h0 \<and>
           header_end_pos s0 = length h0 \<and>
           updated_header (native p) k l (data_types p) (element_sizes p) = Inr hk \<and>
           length hk \<le> length h0 \<and>
           pad_and_patch (header_end_pos s0) hk = Inr hp \<and>
           length hp = header_end_pos s0"
proof -
  from ctor obtain h0 where h0:
    "updated_header (native p) (- 1) l (data_types p) (element_sizes p) = Inr h0"
    "header_end_pos s0 = length h0"
    by (rule NpyStream_labels_Inr)
  from h0(1) obtain hk hp where
    "updated_header (native p) k l (data_types p) (element_sizes p) = Inr hk"
    "length hk \<le> length h0"
    "pad_and_patch (length h0) hk = Inr hp" "length hp = length h0"
    by (rule wrap_up_header)
  with h0 show ?thesis by auto
qed

text \<open>An example that meets the hypotheses, and what the theorem gives for it.\<close>

theorem header_length_invariance_witness:
  "\<exists>s0. NpyStream_labels int_float None [''a'', ''b''] = Inr s0 \<and>
     (\<exists>hk hp. updated_header little 3 [''a'', ''b''] ''if'' [4, 4] = Inr hk \<and>
        length hk \<le> 112 \<and> pad_and_patch 112 hk = Inr hp \<and> length hp = 112)"
proof -
  from int_float_open obtain s0 where s0: "NpyStream_labels int_float None [''a'', ''b''] = Inr s0"
    and hep: "header_end_pos s0 = 112"
    by blast
  have params: "native int_float = little" "data_types int_float = ''if''"
    "element_sizes int_float = [4, 4]"
    by (simp_all add: layout_simps)
  from header_length_invariance [OF s0, of 3] s0 show ?thesis
    unfolding hep params by metis
qed

text \<open>
  Claim C3, run on the code. A stream of \<^verbatim>\<open>(int32_t, float)\<close> records whose
  first label has 149 characters reserves a header of 272 bytes, a dictionary of
  262 = 0x0106 bytes. After the destructor the header starts with version 1.1 and
  the length bytes \<open>06 00\<close>: \<open>wrap_up\<close> has stored the high byte of the length in
  byte 7, the minor version, and has left byte 9 as rendered for the shorter
  dictionary. The format asks for version 1.0 and the length bytes \<open>06 01\<close>.
\<close>

theorem length_field_misplaced:
  "\<exists>s0 f. NpyStream_labels int_float None long_labels = Inr s0 \<and>
     header_end_pos s0 = 272 \<and> destructor int_float s0 = Inr f \<and>
     take 10 (content f) = [0x93, 0x4E, 0x55, 0x4D, 0x50, 0x59, 0x01, 0x01, 0x06, 0x00]"
proof -
  have "(247::nat) + padding 247 \<le> 0xffff" by (simp add: padding_def)
  with long_labels_dict_lengths(1)
  obtain h0 where h0: "updated_header little (- 1) long_labels ''if'' [4, 4] = Inr h0"
    and len: "length h0 = 10 + (247 + padding 247)"
    using header_from_dict_length [of long_labels "''if''" "[4, 4]" little "- 1" 247]
    by (auto simp add: long_labels_def)
  then have len0: "length h0 = 272" by (simp add: padding_def)
  from h0 obtain s0 where s0: "NpyStream_labels int_float None long_labels = Inr s0"
    using NpyStream_labels_succeeds [of long_labels int_float h0 None]
    by (auto simp add: int_float_params long_labels_def)
  then obtain h0' where h0': "updated_header (native int_float) (- 1) long_labels
        (data_types int_float) (element_sizes int_float) = Inr h0'"
    "header_end_pos s0 = length h0'" "values_written s0 = 0" "labels s0 = long_labels"
    by (rule NpyStream_labels_Inr)
  with h0 have same: "h0' = h0" by (simp add: int_float_params)
  note inv0 = NpyStream_labels_inv [OF s0]
  from inv0(1) h0'(1,2,4) obtain f hk hp where d:
    "destructor int_float s0 = Inr f"
    "content f = hp @ drop (length h0') (logical int_float s0)"
    "updated_header (native int_float) (values_written s0) (labels s0) (data_types int_float)
        (element_sizes int_float) = Inr hk"
    "length hk \<le> length h0'"
    "pad_and_patch (length h0') hk = Inr hp"
    "length hp = length h0'"
    by (auto elim: destructor_ok)
  from d(3) have hk: "updated_header little 0 long_labels ''if'' [4, 4] = Inr hk"
    by (simp add: int_float_params h0')
  have "take 10 hp = (preamble little (228 + padding 228))
            [7 := ucast ((of_nat 272 - 10 :: 64 word) div 0x100),
             8 := ucast ((of_nat 272 - 10 :: 64 word) mod 0x100)]"
    using take_10_patched [OF hk long_labels_dict_lengths(2), of 272 hp] d(4,5)
    by (simp add: same len0)
  also have "\<dots> = [0x93, 0x4E, 0x55, 0x4D, 0x50, 0x59, 0x01, 0x01, 0x06, 0x00]"
    by (simp add: preamble_def append_int_eq padding_def drop_bit_eq_div)
  finally have "take 10 (content f) = [0x93, 0x4E, 0x55, 0x4D, 0x50, 0x59, 0x01, 0x01, 0x06, 0x00]"
    by (simp add: d(2,6) same len0)
  with s0 h0'(2) same len0 d(1) show ?thesis by auto
qed

text \<open>
  Claim C4 as stated fails: right after a stream of doubles is opened, the first
  \<open>header_end_pos\<close> bytes that the file has been sent are not the header
  rendered for the shape \<open>[UINT64_MAX]\<close>. Byte 8 of what was sent is 0, byte 8
  of that header is 0x56. Whatever part of the sent bytes has reached the disk,
  the file does not start with that header.
\<close>

theorem placeholder_is_zeroed_counterexample:
  "map_sum fst header_region (NpyStream_labels doubles None [])
     \<noteq> create_npy_header_scalar little [- 1] (CHR ''f'') 8 C"
proof -
  have params: "native doubles = little" "data_types doubles = ''f''"
    "element_sizes doubles = [8]"
    by (simp_all add: layout_simps)
  from doubles_open obtain s0 where s0: "NpyStream_labels doubles None [] = Inr s0"
    and hep: "header_end_pos s0 = 96"
    by blast
  from s0 obtain h0 where h0: "updated_header little (- 1) [] ''f'' [8] = Inr h0"
    "header_end_pos s0 = length h0"
    "content (file s0) = take 8 h0 @ replicate (length h0 - 8) 0"
    by (rule NpyStream_labels_Inr) (simp add: params)
  have n: "length (dict_text little [] ''f'' [8] (- 1)) = 76"
    by (simp add: dict_simps)
  have "h0 ! 8 = preamble little (76 + padding 76) ! 8"
    by (subst updated_header_Inr(2) [OF h0(1)]) (simp add: n nth_append length_preamble)
  also have "\<dots> = 0x56"
    by (simp add: preamble_def append_int_eq padding_def)
  finally have byte8: "h0 ! 8 = 0x56" .
  from h0(2,3) hep have "header_region s0 ! 8 = 0"
    by (simp add: header_region_def nth_append)
  with byte8 have "header_region s0 \<noteq> h0" by auto
  moreover have "create_npy_header_scalar little [- 1] (CHR ''f'') 8 C = Inr h0"
    using h0(1) by (simp add: updated_header_def)
  ultimately show ?thesis by (simp add: s0)
qed

text \<open>
  Claim C4, amended. From the moment a stream is opened and after any sequence of
  well-typed calls, as long as the destructor has not run, the first
  \<open>header_end_pos\<close> bytes handed to the output stream are the magic string and
  the version 1.0 followed by zero bytes only: \<open>init\<close> zero-fills the
  placeholder header from byte 8 on before it writes it. They have the length of
  the header rendered for the shape \<open>[UINT64_MAX]\<close> and differ from it. This
  is a statement about the bytes given to the stream, which buffers them; how
  many of them are on disk before the destructor runs is not determined here.
\<close>

theorem open_stream_header_region:
  assumes ctor: "NpyStream_labels p d l = Inr s0"
    and ok: "list_all (call_ok p) cs"
  shows "\<exists>s h0. run p cs s0 = Inr s \<and> header_end_pos s = header_end_pos s0 \<and>
           header_region s = [0x93, 78, 85, 77, 80, 89, 1, 0] @ replicate (header_end_pos s0 - 8) 0 \<and>
           updated_header (native p) (- 1) l (data_types p) (element_sizes p) = Inr h0 \<and>
           length h0 = header_end_pos s0 \<and> header_region s \<noteq> h0"
proof -
  from ctor obtain h0 where h0:
    "updated_header (native p) (- 1) l (data_types p) (element_sizes p) = Inr h0"
    "header_end_pos s0 = length h0"
    "content (file s0) = take 8 h0 @ replicate (length h0 - 8) 0"
    by (rule NpyStream_labels_Inr)
  note inv0 = NpyStream_labels_inv [OF ctor]
  have "take 8 h0 = [0x93, 78, 85, 77, 80, 89, 1, 0]"
    by (subst updated_header_Inr(2) [OF h0(1)]) (simp add: length_preamble take8_preamble)
  with h0(3) have c0: "content (file s0) = [0x93, 78, 85, 77, 80, 89, 1, 0] @ replicate (length h0 - 8) 0"
    by simp
  from updated_header_Inr(3) [OF h0(1)] have long: "10 \<le> length h0" by simp
  with c0 have len0: "length (content (file s0)) = length h0" by simp
  from run_ok [OF inv0(1) ok] obtain s where s: "run p cs s0 = Inr s"
    and f: "follows p s0 (concat (map payload cs)) (sum_list (map records cs)) s"
    by blast
  from f have inv: "stream_inv p s" and log: "logical p s = content (file s0) @ concat (map payload cs)"
    and same: "header_end_pos s = length h0"
    by (simp_all add: follows_def h0 inv0(2))
  from inv same have "length h0 \<le> length (content (file s))" by (simp add: stream_inv_def)
  then have "take (length h0) (content (file s)) = take (length h0) (logical p s)"
    by (simp add: logical_def)
  also have "\<dots> = content (file s0)"
    by (simp add: log len0)
  finally have region: "header_region s =
      [0x93, 78, 85, 77, 80, 89, 1, 0] @ replicate (length h0 - 8) 0"
    using same c0 by (simp add: header_region_def)
  from long have "header_region s ! 8 = 0"
    by (simp add: region nth_append)
  moreover have "h0 ! 8 \<noteq> 0" using h0(1) by (rule placeholder_byte_8)
  ultimately have "header_region s \<noteq> h0" by auto
  with s same region h0(1,2) show ?thesis by auto
qed

text \<open>An example that meets the hypotheses, and what the theorem gives for it.\<close>

theorem open_stream_header_region_witness:
  "\<exists>s0. NpyStream_labels int_float None [''a'', ''b''] = Inr s0 \<and>
     list_all (call_ok int_float) sample_calls \<and>
     (\<exists>s. run int_float sample_calls s0 = Inr s \<and>
        header_region s = [0x93, 78, 85, 77, 80, 89, 1, 0] @ replicate 104 0)"
proof -
  from int_float_open obtain s0 where s0: "NpyStream_labels int_float None [''a'', ''b''] = Inr s0"
    and hep: "header_end_pos s0 = 112"
    by blast
  from open_stream_header_region [OF s0 sample_calls_ok] s0 sample_calls_ok
  show ?thesis unfolding hep by auto
qed

text \<open>
  Claim C5. Constructing a stream of a record type with more than one field from
  a label container whose length is not the number of fields fails with
  \<open>LayoutMismatch\<close>, and the disk is as it was: the file has not been opened.
\<close>

theorem layout_validation:
  assumes "TArgs p \<noteq> []" "length l \<noteq> tuple_size p"
  shows "NpyStream_labels p d l = Inl (LayoutMismatch, d)"
  using assms by (cases "TArgs p") (simp_all add: NpyStream_labels_def init_def Let_def tuple_size_eq)

text \<open>An example that meets the hypotheses, and what the theorem gives for it.\<close>

theorem layout_validation_witness:
  "TArgs int_float \<noteq> [] \<and> length [''a''] \<noteq> tuple_size int_float \<and>
   NpyStream_labels int_float None [''a''] = Inl (LayoutMismatch, None)"
proof -
  have h: "TArgs int_float \<noteq> []" "length [''a''] \<noteq> tuple_size int_float"
    by (simp_all add: layout_simps)
  from layout_validation [OF h] h show ?thesis by simp
qed

text \<open>
  Claim C6. On a little-endian host the stream of \<^verbatim>\<open>(int32_t, float)\<close>
  records labelled \<open>a\<close> and \<open>b\<close> that receives the one tuple \<open>(7, 2.5f)\<close> and
  is destroyed leaves a file whose dictionary is the text below, padded with
  spaces and ended by a newline, and whose data are the eight bytes
  \<open>07 00 00 00 00 00 20 40\<close>. The bit pattern written for the second field
  stands for 2.5.
\<close>

theorem structured_scenario:
  "\<exists>s0 s1 f. NpyStream_labels int_float None [''a'', ''b''] = Inr s0 \<and>
     put int_float [object_bytes little 4 (7 :: 32 word),
                    object_bytes little 4 (binary32 False 128 0x200000)] s0 = Inr s1 \<and>
     destructor int_float s1 = Inr f \<and>
     drop 10 (take 112 (content f)) =
       map of_char ''{'descr': [('a', '<i4'), ('b', '<f4')], 'fortran_order': False, 'shape': (1,), }''
         @ replicate 21 0x20 @ [0x0A] \<and>
     drop 112 (content f) = [0x07, 0x00, 0x00, 0x00, 0x00, 0x00, 0x20, 0x40] \<and>
     binary32_value False 128 0x200000 = 5 / 2"
proof -
  let ?val = "[[7, 0, 0, 0], [0, 0, 0x20, 0x40 :: byte]]"
  from int_float_open obtain s0 where s0: "NpyStream_labels int_float None [''a'', ''b''] = Inr s0"
    and hep: "header_end_pos s0 = 112"
    by blast
  from s0 obtain h0 where h0:
    "updated_header (native int_float) (- 1) [''a'', ''b''] (data_types int_float)
       (element_sizes int_float) = Inr h0"
    "header_end_pos s0 = length h0" "values_written s0 = 0" "labels s0 = [''a'', ''b'']"
    "pos (file s0) = length h0"
    by (rule NpyStream_labels_Inr)
  note inv0 = NpyStream_labels_inv [OF s0]
  from h0(2) hep have len0: "length h0 = 112" by simp
  have "map length ?val = element_sizes int_float" by (simp add: int_float_params)
  with inv0(1) obtain s1 where s1: "put int_float ?val s0 = Inr s1"
    and f1: "follows int_float s0 (concat ?val) 1 s1"
    using put_ok [of int_float s0 ?val] by blast
  from f1 have inv1: "stream_inv int_float s1"
    and log: "logical int_float s1 = content (file s0) @ [7, 0, 0, 0, 0, 0, 0x20, 0x40]"
    and vw: "values_written s1 = 1" and same: "header_end_pos s1 = length h0"
      "labels s1 = [''a'', ''b'']"
    by (simp_all add: follows_def h0 inv0(2))
  from inv0(1) h0(5) len0 have "length (content (file s0)) = 112"
    by (simp add: stream_inv_def)
  then have data: "drop 112 (logical int_float s1) = [7, 0, 0, 0, 0, 0, 0x20, 0x40]"
    by (simp add: log)
  from inv1 h0(1) same obtain f hp m where d:
    "destructor int_float s1 = Inr f"
    "content f = hp @ drop (length h0) (logical int_float s1)"
    "length hp = length h0"
    "drop 10 hp = dict_text (native int_float) (labels s1) (data_types int_float)
        (element_sizes int_float) (values_written s1) @ replicate m 0x20 @ [0x0A]"
    by (auto elim: destructor_ok)
  have rendered: "dict_text little [''a'', ''b''] ''if'' [4, 4] 1 =
      map of_char ''{'descr': [('a', '<i4'), ('b', '<f4')], 'fortran_order': False, 'shape': (1,), }''"
    by (simp add: dict_simps byte_of_char_of)
  have dict: "drop 10 hp = map of_char
        ''{'descr': [('a', '<i4'), ('b', '<f4')], 'fortran_order': False, 'shape': (1,), }''
        @ replicate m 0x20 @ [0x0A]"
    using d(4) by (simp only: int_float_params same vw rendered)
  have "length (drop 10 hp) = 102" by (simp add: d(3) len0)
  with dict have "m = 21" by simp
  with dict d(2,3) len0 data have
    "drop 10 (take 112 (content f)) = map of_char
        ''{'descr': [('a', '<i4'), ('b', '<f4')], 'fortran_order': False, 'shape': (1,), }''
        @ replicate 21 0x20 @ [0x0A]"
    "drop 112 (content f) = [0x07, 0x00, 0x00, 0x00, 0x00, 0x00, 0x20, 0x40]"
    by simp_all
  with s0 s1 d(1) two_and_a_half_value show ?thesis
    unfolding seven_bytes two_and_a_half_bytes by blast
qed

text \<open>
  Claim C7. \<open>flush_buffer\<close> on a stream whose buffer is empty returns the stream
  unchanged, file and position and counters included, and flushing twice is
  flushing once.
\<close>

theorem flush_empty_noop:
  "(buffer_size s = 0 \<longrightarrow> flush_buffer p s = s) \<and>
   flush_buffer p (flush_buffer p s) = flush_buffer p s"
proof -
  have noop: "flush_buffer p s' = s'" if "buffer_size s' = 0" for s'
    using that by (simp add: flush_buffer_def ofstream_write_def)
  have "buffer_size (flush_buffer p s) = 0" by (simp add: flush_buffer_def)
  then have "flush_buffer p (flush_buffer p s) = flush_buffer p s" by (rule noop)
  with noop show ?thesis by blast
qed

text \<open>An example that meets the hypotheses, and what the theorem gives for it.\<close>

theorem flush_empty_noop_witness:
  "buffer_size (fresh int_float) = 0 \<and>
   flush_buffer int_float (fresh int_float) = fresh int_float"
  using flush_empty_noop [of "fresh int_float" int_float] by (simp add: fresh_def)

text \<open>
  Claim C8. The capacity of the buffer is \<open>max 1 (256 div sum_sizes)\<close>: at least
  one record; for a record of at most 256 bytes the largest number of records
  that fit into 256 bytes; one record when a record is larger than that.
\<close>

theorem buffer_capacity_value:
  "buffer_capacity p = max 1 (256 div sum_sizes p) \<and> 1 \<le> buffer_capacity p \<and>
   (0 < sum_sizes p \<and> sum_sizes p \<le> 256 \<longrightarrow>
      buffer_capacity p * sum_sizes p \<le> 256 \<and> 256 < (buffer_capacity p + 1) * sum_sizes p) \<and>
   (256 < sum_sizes p \<longrightarrow> buffer_capacity p = 1)"
proof -
  have "256 div sum_sizes p * sum_sizes p \<le> 256" by simp
  moreover have "0 < sum_sizes p \<Longrightarrow> 256 < (256 div sum_sizes p + 1) * sum_sizes p"
    using dividend_less_div_times [of "sum_sizes p" 256] by (simp add: ac_simps)
  moreover have "0 < sum_sizes p \<Longrightarrow> sum_sizes p \<le> 256 \<Longrightarrow> 1 \<le> 256 div sum_sizes p"
    by (simp add: div_greater_zero_iff Suc_le_eq)
  ultimately show ?thesis
    by (auto simp add: buffer_capacity_def max_def)
qed

text \<open>An example that meets the hypotheses, and what the theorem gives for it.\<close>

theorem buffer_capacity_value_witness:
  "0 < sum_sizes int_float \<and> sum_sizes int_float \<le> 256 \<and> buffer_capacity int_float = 32 \<and>
   256 < sum_sizes wide \<and> buffer_capacity wide = 1"
proof -
  have a: "sum_sizes int_float = 8" by (simp add: layout_simps)
  have b: "sum_sizes wide = 320"
    by (simp add: wide_def complex128_def sum_sizes_def element_sizes_def tuple_type_def sizeof_def
        sum_list_replicate)
  from buffer_capacity_value [of int_float] buffer_capacity_value [of wide]
  show ?thesis unfolding a b by simp
qed

text \<open>
  Claim C9. After construction and after every call of a sequence of well-typed
  calls, each call returns and \<open>buffer_size\<close> is below \<open>buffer_capacity\<close>, so
  that the slot the next \<^verbatim>\<open>operator<<\<close> fills lies within the buffer.
\<close>

theorem buffer_in_bounds:
  assumes ctor: "NpyStream_labels p d l = Inr s0"
    and ok: "list_all (call_ok p) cs"
  shows "\<forall>n\<le>length cs. \<exists>s. run p (take n cs) s0 = Inr s \<and>
           unat (buffer_size s) < buffer_capacity p \<and>
           (unat (buffer_size s) + 1) * sum_sizes p \<le> length (buffer s)"
proof (intro allI impI)
  fix n
  assume "n \<le> length cs"
  from ok have "list_all (call_ok p) (take n cs)"
    by (auto simp add: list_all_iff dest: in_set_takeD)
  with NpyStream_labels_inv(1) [OF ctor] obtain s where s: "run p (take n cs) s0 = Inr s"
    and inv: "stream_inv p s"
    using run_ok [of p s0 "take n cs"] by (auto simp add: follows_def)
  from inv have j: "unat (buffer_size s) < buffer_capacity p"
    and len: "length (buffer s) = buffer_capacity p * sum_sizes p"
    by (simp_all add: stream_inv_def)
  from j have "Suc (unat (buffer_size s)) * sum_sizes p \<le> buffer_capacity p * sum_sizes p"
    by (intro mult_le_mono1) simp
  with s j len show "\<exists>s. run p (take n cs) s0 = Inr s \<and>
           unat (buffer_size s) < buffer_capacity p \<and>
           (unat (buffer_size s) + 1) * sum_sizes p \<le> length (buffer s)"
    by simp
qed

text \<open>An example that meets the hypotheses, and what the theorem gives for it.\<close>

theorem buffer_in_bounds_witness:
  "\<exists>s0. NpyStream_labels int_float None [''a'', ''b''] = Inr s0 \<and>
     list_all (call_ok int_float) sample_calls \<and>
     (\<exists>s. run int_float (take 3 sample_calls) s0 = Inr s \<and>
        unat (buffer_size s) < buffer_capacity int_float)"
proof -
  from int_float_open obtain s0 where s0: "NpyStream_labels int_float None [''a'', ''b''] = Inr s0"
    by blast
  have "(3::nat) \<le> length sample_calls" by (simp add: sample_calls_def)
  with buffer_in_bounds [OF s0 sample_calls_ok] s0 sample_calls_ok
  show ?thesis by blast
qed

text \<open>
  Claim C10. On a single-scalar stream, appending values one at a time with
  \<^verbatim>\<open>operator<<\<close> and appending them as one block with \<^verbatim>\<open>write\<close> lead
  to the same \<open>values_written\<close> and, after the destructor, to the same file.
\<close>

theorem scalar_paths_agree:
  assumes ctor: "NpyStream_labels p d l = Inr s0"
    and single: "TArgs p = []"
    and typed: "list_all (\<lambda>v. length v = sizeof (T p)) vs"
  shows "\<exists>s1 f. put_all p vs s0 = Inr s1 \<and> destructor p s1 = Inr f \<and>
           destructor p (write_span p vs s0) = Inr f \<and>
           values_written s1 = values_written (write_span p vs s0)"
proof -
  let ?cs = "map (\<lambda>v. Put [v]) vs"
  from ctor obtain h0 where h0:
    "updated_header (native p) (- 1) l (data_types p) (element_sizes p) = Inr h0"
    "header_end_pos s0 = length h0" "labels s0 = l"
    by (rule NpyStream_labels_Inr)
  note inv0 = NpyStream_labels_inv(1) [OF ctor]
  have sizes: "element_sizes p = [sizeof (T p)]"
    by (simp add: element_sizes_def tuple_type_def single)
  from typed have ok: "list_all (call_ok p) ?cs"
    by (induction vs) (simp_all add: sizes)
  have bytes: "concat (map payload ?cs) = concat vs"
    by (induction vs) simp_all
  have count: "sum_list (map records ?cs) = length vs"
    by (induction vs) simp_all
  from run_ok [OF inv0 ok] obtain s1 where s1: "run p ?cs s0 = Inr s1"
    and f1: "follows p s0 (concat vs) (length vs) s1"
    unfolding bytes count by blast
  from write_span_ok [OF inv0 typed]
  have f2: "follows p s0 (concat vs) (length vs) (write_span p vs s0)" .
  from f1 f2 have eq: "logical p s1 = logical p (write_span p vs s0)"
      "values_written s1 = values_written (write_span p vs s0)"
      "header_end_pos s1 = header_end_pos (write_span p vs s0)"
      "labels s1 = labels (write_span p vs s0)"
    and at_end: "pos (file s1) = length (content (file s1))"
      "pos (file (write_span p vs s0)) = length (content (file (write_span p vs s0)))"
    and inv1: "stream_inv p s1" and same: "header_end_pos s1 = length h0" "labels s1 = l"
    by (simp_all add: follows_def stream_inv_def h0)
  have agree: "destructor p s1 = destructor p (write_span p vs s0)"
    by (simp only: destructor_eq [OF at_end(1)] destructor_eq [OF at_end(2)] eq)
  from inv1 h0(1) same obtain f where f: "destructor p s1 = Inr f"
    by (auto elim: destructor_ok)
  from agree f have "destructor p (write_span p vs s0) = Inr f" by simp
  with s1 f eq(2) show ?thesis unfolding put_all_run by blast
qed

text \<open>An example that meets the hypotheses, and what the theorem gives for it.\<close>

theorem scalar_paths_agree_witness:
  "\<exists>s0. NpyStream_labels doubles None [] = Inr s0 \<and> TArgs doubles = [] \<and>
     list_all (\<lambda>v. length v = sizeof (T doubles)) three_doubles \<and>
     (\<exists>s1 f. put_all doubles three_doubles s0 = Inr s1 \<and> destructor doubles s1 = Inr f \<and>
        destructor doubles (write_span doubles three_doubles s0) = Inr f)"
proof -
  from doubles_open obtain s0 where s0: "NpyStream_labels doubles None [] = Inr s0"
    by blast
  have single: "TArgs doubles = []" by (simp add: layout_simps)
  have typed: "list_all (\<lambda>v. length v = sizeof (T doubles)) three_doubles"
    by (simp add: three_doubles_def layout_simps)
  from scalar_paths_agree [OF s0 single typed] s0 single typed
  show ?thesis by blast
qed

end
